theory Spec2Isabelle
  imports
    Main
    "HOL-Library.Word"
    "HOL-Library.Char_ord"
    "HOL-Library.List_Lexorder"
    "HOL-Library.AList"
begin

section \<open>JavaScript values shared by the modules\<close>

text \<open>
  An exception object: \<open>new Error(message)\<close> made by the program, a
  \<open>TypeError\<close> or \<open>SyntaxError\<close> of the language, or a \<open>DOMException\<close> (by
  name) delivered by the platform.  A promise is modelled by its
  settlement; a call of a function either throws synchronously or returns.
\<close>

datatype error = Error string | TypeError string | SyntaxError string | DOMException string

datatype 'a promise = Fulfilled 'a | Rejected error

datatype 'a completion = Threw error | Returned 'a

fun map_promise :: "('a \<Rightarrow> 'b) \<Rightarrow> 'a promise \<Rightarrow> 'b promise" where
  "map_promise f (Fulfilled v) = Fulfilled (f v)"
| "map_promise f (Rejected e) = Rejected e"

fun fulfilled :: "'a promise \<Rightarrow> bool" where
  "fulfilled (Fulfilled v) = True"
| "fulfilled (Rejected e) = False"

text \<open>\<open>ToBoolean\<close> of an optional string, and \<open>a || b\<close> on it.\<close>

fun truthy_str :: "string option \<Rightarrow> bool" where
  "truthy_str None = False"
| "truthy_str (Some s) = (s \<noteq> [])"

fun str_or :: "string option \<Rightarrow> string \<Rightarrow> string" where
  "str_or None d = d"
| "str_or (Some s) d = (if s \<noteq> [] then s else d)"

text \<open>Decimal rendering of a number inside a template literal.\<close>

definition digit_char :: "nat \<Rightarrow> char" where
  "digit_char d = char_of (48 + d)"

fun dec :: "nat \<Rightarrow> string" where
  "dec n = (if n < 10 then [digit_char n] else dec (n div 10) @ [digit_char (n mod 10)])"

declare dec.simps [simp del]

definition show_int :: "int \<Rightarrow> string" where
  "show_int i = (if i < 0 then CHR ''-'' # dec (nat (- i)) else dec (nat i))"

text \<open>ASCII case folding, as the \<open>i\<close> flag of a regular expression sees ASCII letters.\<close>

definition to_lower :: "char \<Rightarrow> char" where
  "to_lower c =
     (if 65 \<le> (of_char c :: nat) \<and> (of_char c :: nat) \<le> 90
      then char_of ((of_char c :: nat) + 32) else c)"

definition eq_ci :: "string \<Rightarrow> string \<Rightarrow> bool" where
  "eq_ci a b = (map to_lower a = map to_lower b)"

definition starts_with_ci :: "string \<Rightarrow> string \<Rightarrow> bool" where
  "starts_with_ci p s = eq_ci p (take (length p) s)"

section \<open>Binary data, base64 and data URLs (asset store, platform side)\<close>

record Blob =
  bytes :: "8 word list"
  blob_type :: string
  file_name :: "string option"

definition blob_size :: "Blob \<Rightarrow> nat" where
  "blob_size b = length (bytes b)"

text \<open>
  The \<open>Blob\<close> constructor keeps a type of printable ASCII in lower case and
  replaces any other by the empty string.
\<close>

definition printable :: "char \<Rightarrow> bool" where
  "printable c = (32 \<le> (of_char c :: nat) \<and> (of_char c :: nat) \<le> 126)"

definition normalize_type :: "string \<Rightarrow> string" where
  "normalize_type t = (if list_all printable t then map to_lower t else [])"

definition new_Blob :: "8 word list \<Rightarrow> string \<Rightarrow> Blob" where
  "new_Blob bs t = \<lparr>bytes = bs, blob_type = normalize_type t, file_name = None\<rparr>"

definition b64_alphabet :: string where
  "b64_alphabet = ''ABCDEFGHIJKLMNOPQRSTUVWXYZabcdefghijklmnopqrstuvwxyz0123456789+/''"

definition b64_char :: "nat \<Rightarrow> char" where
  "b64_char i = b64_alphabet ! i"

primrec index_of :: "'a list \<Rightarrow> 'a \<Rightarrow> nat option" where
  "index_of [] c = None"
| "index_of (x # xs) c = (if x = c then Some 0 else map_option Suc (index_of xs c))"

fun b64_sextets :: "8 word list \<Rightarrow> nat list" where
  "b64_sextets [] = []"
| "b64_sextets [a] = [unat a div 4, (unat a mod 4) * 16]"
| "b64_sextets [a, b] =
     [unat a div 4, (unat a mod 4) * 16 + unat b div 16, (unat b mod 16) * 4]"
| "b64_sextets (a # b # c # rest) =
     [unat a div 4, (unat a mod 4) * 16 + unat b div 16,
      (unat b mod 16) * 4 + unat c div 64, unat c mod 64] @ b64_sextets rest"

definition b64_padding :: "nat \<Rightarrow> string" where
  "b64_padding n = replicate ((3 - n mod 3) mod 3) (CHR ''='')"

definition base64_encode :: "8 word list \<Rightarrow> string" where
  "base64_encode bs = map b64_char (b64_sextets bs) @ b64_padding (length bs)"

text \<open>
  \<open>atob\<close>, the forgiving base64 decoder: ASCII whitespace is dropped, one or two
  trailing \<open>=\<close> are removed when the length is a multiple of four, a length of one
  modulo four or a character outside the alphabet fails, and the bits left over at the
  end are discarded.
\<close>

definition ascii_whitespace :: "char \<Rightarrow> bool" where
  "ascii_whitespace c = ((of_char c :: nat) \<in> {9, 10, 12, 13, 32})"

definition strip_padding :: "string \<Rightarrow> string" where
  "strip_padding s =
     (case rev s of
        c1 # c2 # r \<Rightarrow>
          (if c1 = CHR ''='' \<and> c2 = CHR ''='' then rev r
           else if c1 = CHR ''='' then rev (c2 # r) else s)
      | [c1] \<Rightarrow> (if c1 = CHR ''='' then [] else s)
      | [] \<Rightarrow> s)"

fun b64_bytes :: "nat list \<Rightarrow> 8 word list" where
  "b64_bytes (s1 # s2 # s3 # s4 # rest) =
     [of_nat (s1 * 4 + s2 div 16), of_nat ((s2 mod 16) * 16 + s3 div 4),
      of_nat ((s3 mod 4) * 64 + s4)] @ b64_bytes rest"
| "b64_bytes [s1, s2, s3] = [of_nat (s1 * 4 + s2 div 16), of_nat ((s2 mod 16) * 16 + s3 div 4)]"
| "b64_bytes [s1, s2] = [of_nat (s1 * 4 + s2 div 16)]"
| "b64_bytes [s1] = []"
| "b64_bytes [] = []"

definition atob :: "string \<Rightarrow> error + 8 word list" where
  "atob data =
     (let d1 = filter (\<lambda>c. \<not> ascii_whitespace c) data;
          d2 = (if length d1 mod 4 = 0 then strip_padding d1 else d1)
      in if length d2 mod 4 = 1 then Inl (DOMException ''InvalidCharacterError'')
         else (case those (map (index_of b64_alphabet) d2) of
                 None \<Rightarrow> Inl (DOMException ''InvalidCharacterError'')
               | Some vs \<Rightarrow> Inr (b64_bytes vs)))"

text \<open>
  \<open>blobToDataUrl\<close>: \<open>FileReader.readAsDataURL\<close>, which may fail with the reader's
  error; a blob without a type is packaged as \<open>application/octet-stream\<close>.
\<close>

definition readAsDataURL :: "Blob \<Rightarrow> string" where
  "readAsDataURL b =
     ''data:'' @ (if blob_type b = [] then ''application/octet-stream'' else blob_type b)
       @ '';base64,'' @ base64_encode (bytes b)"

definition blobToDataUrl :: "error option \<Rightarrow> Blob \<Rightarrow> string promise" where
  "blobToDataUrl reader_error b =
     (case reader_error of Some e \<Rightarrow> Rejected e | None \<Rightarrow> Fulfilled (readAsDataURL b))"

text \<open>\<open>String.prototype.split\<close> on a one-character separator.\<close>

fun split_on :: "char \<Rightarrow> string \<Rightarrow> string list" where
  "split_on c [] = [[]]"
| "split_on c (x # xs) =
     (if x = c then [] # split_on c xs
      else (case split_on c xs of p # ps \<Rightarrow> (x # p) # ps | [] \<Rightarrow> [[x]]))"

text \<open>
  The regular expression \<open>/data:(.*?)(;base64)?$/i\<close>: the leftmost \<open>data:\<close> whose
  rest holds no line terminator matches, and the lazy first group is the rest without one
  trailing \<open>;base64\<close>.
\<close>

definition line_terminator :: "char \<Rightarrow> bool" where
  "line_terminator c = ((of_char c :: nat) \<in> {10, 13})"

definition strip_base64_suffix :: "string \<Rightarrow> string" where
  "strip_base64_suffix r =
     (if 7 \<le> length r \<and> eq_ci (drop (length r - 7) r) '';base64''
      then take (length r - 7) r else r)"

fun mime_exec :: "string \<Rightarrow> string option" where
  "mime_exec [] = None"
| "mime_exec (c # cs) =
     (if starts_with_ci ''data:'' (c # cs) \<and> \<not> list_ex line_terminator (drop 5 (c # cs))
      then Some (strip_base64_suffix (drop 5 (c # cs)))
      else mime_exec cs)"

definition dataUrlToBlob :: "string \<Rightarrow> error + Blob" where
  "dataUrlToBlob dataUrl =
     (let parts = split_on (CHR '','') dataUrl;
          meta = hd parts;
          data = (case parts of _ # d # _ \<Rightarrow> d | _ \<Rightarrow> ''undefined'');
          mime = (case mime_exec meta of
                    Some g \<Rightarrow> (if g \<noteq> [] then g else ''application/octet-stream'')
                  | None \<Rightarrow> ''application/octet-stream'')
      in case atob data of
           Inl e \<Rightarrow> Inl e
         | Inr binary \<Rightarrow> Inr (new_Blob binary mime))"

definition untyped_blob :: Blob where
  "untyped_blob = \<lparr>bytes = [1, 2, 3], blob_type = [], file_name = None\<rparr>"

definition comma_blob :: Blob where
  "comma_blob = \<lparr>bytes = [1, 2, 3], blob_type = ''text/x;a=b,c'', file_name = None\<rparr>"

section \<open>The asset store over IndexedDB\<close>

definition DB_NAME :: string where "DB_NAME = ''documentAssetStore''"
definition STORE_NAME :: string where "STORE_NAME = ''assets''"
definition DB_VERSION :: nat where "DB_VERSION = 1"

record StoredAssetMetadata =
  asset_id :: string
  asset_name :: string
  asset_type :: string
  asset_size :: nat
  createdAt :: int
  updatedAt :: int

record StoredAssetRecord = StoredAssetMetadata +
  blob :: Blob

record save_options =
  opt_id :: "string option"
  opt_name :: "string option"
  opt_type :: "string option"
  opt_createdAt :: "int option"
  opt_updatedAt :: "int option"

datatype mode = ReadOnly | ReadWrite

datatype request = Get string | Put StoredAssetRecord | Delete string | GetAll | Clear

text \<open>
  What the platform does to one transaction: the error each request would fail with, and
  how the transaction ends once every request has succeeded (with \<open>tx.error\<close>, which
  may be null, when it does not complete).
\<close>

datatype tx_fate = Completes | Aborts "error option" | Fails "error option"

record tx_env =
  request_error :: "request \<Rightarrow> error option"
  commit :: tx_fate

datatype event =
    EvOpen string nat
  | EvCreateObjectStore string
  | EvTxBegin string mode
  | EvRequest request
  | EvAbortCall
  | EvTxComplete
  | EvTxAbort
  | EvTxError
  | EvResolve
  | EvReject error

text \<open>
  The module's state and its surroundings: whether \<open>indexedDB\<close> is defined, the error
  of the open request if the platform fails it, the stored database, the memoised
  \<open>dbPromise\<close>, and the log of what was done.
\<close>

record world =
  indexedDB :: bool
  open_error :: "error option"
  db_version :: nat
  objectStoreNames :: "string list"
  assets :: "(string \<times> StoredAssetRecord) list"
  dbPromise :: "unit promise option"
  trace :: "event list"

text \<open>What the call reads from its surroundings: the clock, \<open>crypto\<close>, \<open>Math.random\<close>.\<close>

record env =
  randomUUID :: "string option"
  id_clock :: int
  random_suffix :: string
  clock :: int
  reader_error :: "error option"
  object_url :: string

definition log :: "event list \<Rightarrow> world \<Rightarrow> world" where
  "log es w = w\<lparr>trace := trace w @ es\<rparr>"

definition getIndexedDB :: "world \<Rightarrow> error + unit" where
  "getIndexedDB w =
     (if \<not> indexedDB w then Inl (Error ''IndexedDB is not supported in this environment.'')
      else Inr ())"

definition generateId :: "env \<Rightarrow> string" where
  "generateId e =
     (case randomUUID e of
        Some u \<Rightarrow> u
      | None \<Rightarrow> show_int (id_clock e) @ ''-'' @ random_suffix e)"

definition onupgradeneeded :: "world \<Rightarrow> world" where
  "onupgradeneeded w =
     (if STORE_NAME \<in> set (objectStoreNames w) then w\<lparr>db_version := DB_VERSION\<rparr>
      else log [EvCreateObjectStore STORE_NAME]
             (w\<lparr>db_version := DB_VERSION,
                objectStoreNames := STORE_NAME # objectStoreNames w, assets := []\<rparr>))"

definition openDatabase :: "world \<Rightarrow> unit promise \<times> world" where
  "openDatabase w =
     (case dbPromise w of
        Some p \<Rightarrow> (p, w)
      | None \<Rightarrow>
          (case getIndexedDB w of
             Inl e \<Rightarrow> (Rejected e, w\<lparr>dbPromise := Some (Rejected e)\<rparr>)
           | Inr _ \<Rightarrow>
               (let w1 = log [EvOpen DB_NAME DB_VERSION] w in
                case open_error w1 of
                  Some e \<Rightarrow> (Rejected e, w1\<lparr>dbPromise := Some (Rejected e)\<rparr>)
                | None \<Rightarrow>
                    (let w2 = (if db_version w1 < DB_VERSION then onupgradeneeded w1 else w1)
                     in (Fulfilled (), w2\<lparr>dbPromise := Some (Fulfilled ())\<rparr>)))))"

text \<open>
  A transaction body works on the store's content as the transaction sees it and records
  the requests it places; \<open>Inl\<close> is a rejected request (or any exception of the body).
\<close>

record tx_state =
  content :: "(string \<times> StoredAssetRecord) list"
  reqs :: "request list"

definition place :: "request \<Rightarrow> tx_state \<Rightarrow> tx_state" where
  "place r s = s\<lparr>reqs := reqs s @ [r]\<rparr>"

definition idb_get ::
  "(request \<Rightarrow> error option) \<Rightarrow> string \<Rightarrow> tx_state \<Rightarrow> (error + StoredAssetRecord option) \<times> tx_state" where
  "idb_get rerr k s =
     (case rerr (Get k) of
        Some e \<Rightarrow> (Inl e, place (Get k) s)
      | None \<Rightarrow> (Inr (map_of (content s) k), place (Get k) s))"

definition idb_put ::
  "(request \<Rightarrow> error option) \<Rightarrow> StoredAssetRecord \<Rightarrow> tx_state \<Rightarrow> (error + unit) \<times> tx_state" where
  "idb_put rerr r s =
     (case rerr (Put r) of
        Some e \<Rightarrow> (Inl e, place (Put r) s)
      | None \<Rightarrow> (Inr (), place (Put r) (s\<lparr>content := AList.update (asset_id r) r (content s)\<rparr>)))"

definition idb_delete ::
  "(request \<Rightarrow> error option) \<Rightarrow> string \<Rightarrow> tx_state \<Rightarrow> (error + unit) \<times> tx_state" where
  "idb_delete rerr k s =
     (case rerr (Delete k) of
        Some e \<Rightarrow> (Inl e, place (Delete k) s)
      | None \<Rightarrow> (Inr (), place (Delete k) (s\<lparr>content := AList.delete k (content s)\<rparr>)))"

definition idb_getAll ::
  "(request \<Rightarrow> error option) \<Rightarrow> tx_state \<Rightarrow> (error + StoredAssetRecord list) \<times> tx_state" where
  "idb_getAll rerr s =
     (case rerr GetAll of
        Some e \<Rightarrow> (Inl e, place GetAll s)
      | None \<Rightarrow> (Inr (map snd (sort_key fst (content s))), place GetAll s))"

definition idb_clear ::
  "(request \<Rightarrow> error option) \<Rightarrow> tx_state \<Rightarrow> (error + unit) \<times> tx_state" where
  "idb_clear rerr s =
     (case rerr Clear of
        Some e \<Rightarrow> (Inl e, place Clear s)
      | None \<Rightarrow> (Inr (), place Clear (s\<lparr>content := []\<rparr>)))"

definition tx_error_or :: "error option \<Rightarrow> string \<Rightarrow> error" where
  "tx_error_or eo msg = (case eo of Some e \<Rightarrow> e | None \<Rightarrow> Error msg)"

definition runTransaction ::
  "mode \<Rightarrow> ((request \<Rightarrow> error option) \<Rightarrow> tx_state \<Rightarrow> (error + 'a) \<times> tx_state)
     \<Rightarrow> tx_env \<Rightarrow> world \<Rightarrow> 'a promise \<times> world" where
  "runTransaction m executor tenv w =
     (case openDatabase w of
        (Rejected e, w1) \<Rightarrow> (Rejected e, w1)
      | (Fulfilled db, w1) \<Rightarrow>
          (if STORE_NAME \<notin> set (objectStoreNames w1)
           then (Rejected (DOMException ''NotFoundError''), w1)
           else
             (let w2 = log [EvTxBegin STORE_NAME m] w1;
                  (r, s) = executor (request_error tenv) \<lparr>content = assets w2, reqs = []\<rparr>;
                  w3 = log (map EvRequest (reqs s)) w2
              in case r of
                   Inl e \<Rightarrow> (Rejected e, log [EvAbortCall, EvReject e] w3)
                 | Inr v \<Rightarrow>
                     (case commit tenv of
                        Completes \<Rightarrow>
                          (Fulfilled v, log [EvTxComplete, EvResolve] (w3\<lparr>assets := content s\<rparr>))
                      | Aborts eo \<Rightarrow>
                          (Rejected (tx_error_or eo ''Transaction aborted''),
                           log [EvTxAbort, EvReject (tx_error_or eo ''Transaction aborted'')] w3)
                      | Fails eo \<Rightarrow>
                          (Rejected (tx_error_or eo ''Transaction failed''),
                           log [EvTxError, EvReject (tx_error_or eo ''Transaction failed'')] w3)))))"

text \<open>The record \<open>saveAsset\<close> builds, given the record found under the id (if any).\<close>

definition new_record ::
  "string \<Rightarrow> int \<Rightarrow> Blob \<Rightarrow> save_options \<Rightarrow> StoredAssetRecord option \<Rightarrow> StoredAssetRecord" where
  "new_record ident now file options existing =
     \<lparr>asset_id = ident,
      asset_name =
        str_or (opt_name options) (case file_name file of Some n \<Rightarrow> n | None \<Rightarrow> ''asset''),
      asset_type =
        str_or (opt_type options) (str_or (Some (blob_type file)) ''application/octet-stream''),
      asset_size = blob_size file,
      createdAt =
        (case opt_createdAt options of
           Some c \<Rightarrow> c
         | None \<Rightarrow> (case existing of Some r \<Rightarrow> createdAt r | None \<Rightarrow> now)),
      updatedAt = (case opt_updatedAt options of Some u \<Rightarrow> u | None \<Rightarrow> now),
      blob = file\<rparr>"

definition saveAsset_executor ::
  "string \<Rightarrow> int \<Rightarrow> Blob \<Rightarrow> save_options \<Rightarrow> (request \<Rightarrow> error option) \<Rightarrow> tx_state
     \<Rightarrow> (error + StoredAssetMetadata) \<times> tx_state" where
  "saveAsset_executor ident now file options rerr s =
     (case (if truthy_str (opt_id options) then idb_get rerr ident s else (Inr None, s)) of
        (Inl e, s1) \<Rightarrow> (Inl e, s1)
      | (Inr existing, s1) \<Rightarrow>
          (let record = new_record ident now file options existing
           in case idb_put rerr record s1 of
                (Inl e, s2) \<Rightarrow> (Inl e, s2)
              | (Inr _, s2) \<Rightarrow> (Inr (StoredAssetMetadata.truncate record), s2)))"

definition saveAsset ::
  "env \<Rightarrow> tx_env \<Rightarrow> Blob \<Rightarrow> save_options \<Rightarrow> world \<Rightarrow> StoredAssetMetadata promise \<times> world" where
  "saveAsset e tenv file options w =
     (let ident = (case opt_id options of Some i \<Rightarrow> i | None \<Rightarrow> generateId e);
          now = clock e
      in runTransaction ReadWrite (saveAsset_executor ident now file options) tenv w)"

definition saveAssetFromDataUrl ::
  "env \<Rightarrow> tx_env \<Rightarrow> string \<Rightarrow> save_options \<Rightarrow> world \<Rightarrow> StoredAssetMetadata promise \<times> world" where
  "saveAssetFromDataUrl e tenv dataUrl options w =
     (case dataUrlToBlob dataUrl of
        Inl err \<Rightarrow> (Rejected err, w)
      | Inr b \<Rightarrow>
          saveAsset e tenv b
            (options\<lparr>opt_type := Some (str_or (opt_type options) (blob_type b))\<rparr>) w)"

definition getAsset_executor ::
  "string \<Rightarrow> (request \<Rightarrow> error option) \<Rightarrow> tx_state
     \<Rightarrow> (error + StoredAssetRecord option) \<times> tx_state" where
  "getAsset_executor k rerr s = idb_get rerr k s"

definition getAsset ::
  "tx_env \<Rightarrow> string \<Rightarrow> world \<Rightarrow> StoredAssetRecord option promise \<times> world" where
  "getAsset tenv k w = runTransaction ReadOnly (getAsset_executor k) tenv w"

record asset_data_url = StoredAssetMetadata +
  dataUrl :: string

record asset_object_url =
  url_id :: string
  url_name :: string
  url_type :: string
  url :: string

definition getAssetDataUrl ::
  "env \<Rightarrow> tx_env \<Rightarrow> string \<Rightarrow> world \<Rightarrow> asset_data_url option promise \<times> world" where
  "getAssetDataUrl e tenv k w =
     (case getAsset tenv k w of
        (Rejected err, w1) \<Rightarrow> (Rejected err, w1)
      | (Fulfilled None, w1) \<Rightarrow> (Fulfilled None, w1)
      | (Fulfilled (Some asset), w1) \<Rightarrow>
          (case blobToDataUrl (reader_error e) (blob asset) of
             Rejected err \<Rightarrow> (Rejected err, w1)
           | Fulfilled u \<Rightarrow>
               (Fulfilled (Some (StoredAssetMetadata.extend (StoredAssetMetadata.truncate asset)
                                   (asset_data_url.fields u))), w1)))"

definition getAssetObjectUrl ::
  "env \<Rightarrow> tx_env \<Rightarrow> string \<Rightarrow> world \<Rightarrow> asset_object_url option promise \<times> world" where
  "getAssetObjectUrl e tenv k w =
     (case getAsset tenv k w of
        (Rejected err, w1) \<Rightarrow> (Rejected err, w1)
      | (Fulfilled None, w1) \<Rightarrow> (Fulfilled None, w1)
      | (Fulfilled (Some asset), w1) \<Rightarrow>
          (Fulfilled (Some \<lparr>url_id = asset_id asset, url_name = asset_name asset,
                            url_type = asset_type asset, url = object_url e\<rparr>), w1))"

definition deleteAsset_executor ::
  "string \<Rightarrow> (request \<Rightarrow> error option) \<Rightarrow> tx_state \<Rightarrow> (error + unit) \<times> tx_state" where
  "deleteAsset_executor k rerr s = idb_delete rerr k s"

definition deleteAsset :: "tx_env \<Rightarrow> string \<Rightarrow> world \<Rightarrow> unit promise \<times> world" where
  "deleteAsset tenv k w = runTransaction ReadWrite (deleteAsset_executor k) tenv w"

definition listAllAssets_executor ::
  "(request \<Rightarrow> error option) \<Rightarrow> tx_state \<Rightarrow> (error + StoredAssetMetadata list) \<times> tx_state" where
  "listAllAssets_executor rerr s =
     (case idb_getAll rerr s of
        (Inl e, s1) \<Rightarrow> (Inl e, s1)
      | (Inr results, s1) \<Rightarrow> (Inr (map StoredAssetMetadata.truncate results), s1))"

definition listAllAssets :: "tx_env \<Rightarrow> world \<Rightarrow> StoredAssetMetadata list promise \<times> world" where
  "listAllAssets tenv w = runTransaction ReadOnly listAllAssets_executor tenv w"

text \<open>
  \<open>getAssetsByIds\<close>: \<open>ids.map\<close> calls \<open>getAsset\<close> for every id before any of
  the calls settles, so their transactions overlap.  Every call awaits the one memoised
  \<open>dbPromise\<close> and goes on once that has settled, in the order of the ids: it begins
  its transaction and leaves the body to a microtask, so every transaction has begun when
  the bodies place their requests.  The platform answers the requests in the order in
  which they were placed; a failed request makes the call abort its transaction and
  reject at once, and the transactions whose request succeeded end after that.
\<close>

text \<open>How one of these calls settles, and what is logged when it does.\<close>

definition get_settles ::
  "tx_env \<Rightarrow> (string \<times> StoredAssetRecord) list \<Rightarrow> string
     \<Rightarrow> StoredAssetRecord option promise \<times> event list" where
  "get_settles tenv store k =
     (case request_error tenv (Get k) of
        Some e \<Rightarrow> (Rejected e, [EvAbortCall, EvReject e])
      | None \<Rightarrow>
          (case commit tenv of
             Completes \<Rightarrow> (Fulfilled (map_of store k), [EvTxComplete, EvResolve])
           | Aborts eo \<Rightarrow>
               (Rejected (tx_error_or eo ''Transaction aborted''),
                [EvTxAbort, EvReject (tx_error_or eo ''Transaction aborted'')])
           | Fails eo \<Rightarrow>
               (Rejected (tx_error_or eo ''Transaction failed''),
                [EvTxError, EvReject (tx_error_or eo ''Transaction failed'')])))"

text \<open>The promise of the arrow function given to \<open>ids.map\<close>: the pair of id and record.\<close>

definition get_entry ::
  "tx_env \<Rightarrow> (string \<times> StoredAssetRecord) list \<Rightarrow> string
     \<Rightarrow> (string \<times> StoredAssetRecord option) promise" where
  "get_entry tenv store k = map_promise (Pair k) (fst (get_settles tenv store k))"

text \<open>The order in time in which the calls settle: failed requests first.\<close>

definition get_fails :: "tx_env \<Rightarrow> string \<Rightarrow> bool" where
  "get_fails tenv k = (request_error tenv (Get k) \<noteq> None)"

definition settle_order :: "tx_env \<Rightarrow> string list \<Rightarrow> string list" where
  "settle_order tenv ids = filter (get_fails tenv) ids @ filter (\<lambda>k. \<not> get_fails tenv k) ids"

text \<open>
  \<open>Promise.all\<close>: rejected with the first rejection in time, else fulfilled with the
  values in the order in which the promises were given.  \<open>in_time\<close> lists the promises
  in the order in which they settle.
\<close>

fun first_rejection :: "'a promise list \<Rightarrow> error option" where
  "first_rejection [] = None"
| "first_rejection (Rejected e # ps) = Some e"
| "first_rejection (Fulfilled v # ps) = first_rejection ps"

fun fulfilled_values :: "'a promise list \<Rightarrow> 'a list" where
  "fulfilled_values [] = []"
| "fulfilled_values (Fulfilled v # ps) = v # fulfilled_values ps"
| "fulfilled_values (Rejected e # ps) = fulfilled_values ps"

definition promise_all :: "'a promise list \<Rightarrow> 'a promise list \<Rightarrow> 'a list promise" where
  "promise_all in_time ps =
     (case first_rejection in_time of
        Some e \<Rightarrow> Rejected e
      | None \<Rightarrow> Fulfilled (fulfilled_values ps))"

definition getAssetsByIds ::
  "tx_env \<Rightarrow> string list \<Rightarrow> world
     \<Rightarrow> (string \<Rightarrow> StoredAssetRecord option option) promise \<times> world" where
  "getAssetsByIds tenv ids w =
     (if ids = [] then (Fulfilled (map_of []), w)
      else
        (case openDatabase w of
           (Rejected e, w1) \<Rightarrow> (Rejected e, w1)
         | (Fulfilled db, w1) \<Rightarrow>
             (if STORE_NAME \<notin> set (objectStoreNames w1)
              then (Rejected (DOMException ''NotFoundError''), w1)
              else
                (let w2 = log (map (\<lambda>k. EvTxBegin STORE_NAME ReadOnly) ids) w1;
                     w3 = log (map (\<lambda>k. EvRequest (Get k)) ids) w2;
                     in_time = settle_order tenv ids;
                     w4 = log (concat (map (\<lambda>k. snd (get_settles tenv (assets w3) k)) in_time)) w3
                 in (map_promise (\<lambda>entries. map_of (rev entries))
                       (promise_all (map (get_entry tenv (assets w3)) in_time)
                          (map (get_entry tenv (assets w3)) ids)),
                     w4)))))"

definition clearAllAssets_executor ::
  "(request \<Rightarrow> error option) \<Rightarrow> tx_state \<Rightarrow> (error + unit) \<times> tx_state" where
  "clearAllAssets_executor rerr s = idb_clear rerr s"

definition clearAllAssets :: "tx_env \<Rightarrow> world \<Rightarrow> unit promise \<times> world" where
  "clearAllAssets tenv w = runTransaction ReadWrite clearAllAssets_executor tenv w"

text \<open>
  The exported operations as one interface.  Each is an \<open>async\<close> function: a call
  returns a promise, and an exception raised in its body rejects that promise.
\<close>

datatype asset_op =
    SaveAsset Blob save_options
  | SaveAssetFromDataUrl string save_options
  | GetAsset string
  | GetAssetDataUrl string
  | GetAssetObjectUrl string
  | DeleteAsset string
  | ListAllAssets
  | GetAssetsByIds "string list"
  | ClearAllAssets

datatype op_result =
    RMetadata StoredAssetMetadata
  | RRecord "StoredAssetRecord option"
  | RDataUrl "asset_data_url option"
  | RObjectUrl "asset_object_url option"
  | RUnit
  | RList "StoredAssetMetadata list"
  | RMany "string \<Rightarrow> StoredAssetRecord option option"

fun perform :: "env \<Rightarrow> tx_env \<Rightarrow> asset_op \<Rightarrow> world \<Rightarrow> op_result promise \<times> world" where
  "perform e t (SaveAsset f opts) w = apfst (map_promise RMetadata) (saveAsset e t f opts w)"
| "perform e t (SaveAssetFromDataUrl u opts) w =
     apfst (map_promise RMetadata) (saveAssetFromDataUrl e t u opts w)"
| "perform e t (GetAsset k) w = apfst (map_promise RRecord) (getAsset t k w)"
| "perform e t (GetAssetDataUrl k) w = apfst (map_promise RDataUrl) (getAssetDataUrl e t k w)"
| "perform e t (GetAssetObjectUrl k) w =
     apfst (map_promise RObjectUrl) (getAssetObjectUrl e t k w)"
| "perform e t (DeleteAsset k) w = apfst (map_promise (\<lambda>u. RUnit)) (deleteAsset t k w)"
| "perform e t ListAllAssets w = apfst (map_promise RList) (listAllAssets t w)"
| "perform e t (GetAssetsByIds ids) w = apfst (map_promise RMany) (getAssetsByIds t ids w)"
| "perform e t ClearAllAssets w = apfst (map_promise (\<lambda>u. RUnit)) (clearAllAssets t w)"

definition call ::
  "env \<Rightarrow> tx_env \<Rightarrow> asset_op \<Rightarrow> world \<Rightarrow> op_result promise completion \<times> world" where
  "call e t op w = apfst Returned (perform e t op w)"

text \<open>
  Whether an operation reaches \<open>openDatabase\<close>: \<open>getAssetsByIds\<close> of no id starts no
  \<open>getAsset\<close>, and \<open>saveAssetFromDataUrl\<close> decodes the URL first.
\<close>

fun opens_database :: "asset_op \<Rightarrow> bool" where
  "opens_database (GetAssetsByIds ids) = (ids \<noteq> [])"
| "opens_database (SaveAssetFromDataUrl u opts) = (\<not> isl (dataUrlToBlob u))"
| "opens_database _ = True"

fun is_many :: "asset_op \<Rightarrow> bool" where
  "is_many (GetAssetsByIds ids) = True"
| "is_many _ = False"

text \<open>
  How the requests a body placed relate to its result: a rejected body placed a failing
  request last, after requests that succeeded; a fulfilled body placed only requests that
  succeeded.
\<close>

definition request_outcome_ok ::
  "(request \<Rightarrow> error option) \<Rightarrow> request list \<Rightarrow> error + 'a \<Rightarrow> bool" where
  "request_outcome_ok rerr new r =
     (case r of
        Inl e \<Rightarrow> new \<noteq> [] \<and> rerr (last new) = Some e \<and> list_all (\<lambda>q. rerr q = None) (butlast new)
      | Inr v \<Rightarrow> list_all (\<lambda>q. rerr q = None) new)"

definition sound_executor ::
  "tx_env \<Rightarrow> ((request \<Rightarrow> error option) \<Rightarrow> tx_state \<Rightarrow> (error + 'a) \<times> tx_state) \<Rightarrow> bool" where
  "sound_executor t ex =
     (\<forall>s. \<exists>new. reqs (snd (ex (request_error t) s)) = reqs s @ new
            \<and> request_outcome_ok (request_error t) new (fst (ex (request_error t) s)))"

text \<open>What a call added to the log, and whether an event is a lookup by key.\<close>

definition new_events :: "world \<Rightarrow> world \<Rightarrow> event list" where
  "new_events w w' = drop (length (trace w)) (trace w')"

fun is_lookup :: "event \<Rightarrow> bool" where
  "is_lookup (EvRequest (Get k)) = True"
| "is_lookup _ = False"

text \<open>Sample surroundings used to run the operations on concrete inputs.\<close>

definition sample_world :: world where
  "sample_world =
     \<lparr>indexedDB = True, open_error = None, db_version = 0, objectStoreNames = [],
      assets = [], dbPromise = None, trace = []\<rparr>"

definition sample_env :: env where
  "sample_env =
     \<lparr>randomUUID = Some ''uuid-1'', id_clock = 1000, random_suffix = ''k3j9x2ab'',
      clock = 1000, reader_error = None, object_url = ''blob:1''\<rparr>"

definition sample_tenv :: tx_env where
  "sample_tenv = \<lparr>request_error = (\<lambda>r. None), commit = Completes\<rparr>"

definition sample_blob :: Blob where
  "sample_blob = \<lparr>bytes = [1, 2, 3], blob_type = ''image/png'', file_name = Some ''pic.png''\<rparr>"

definition no_options :: save_options where
  "no_options =
     \<lparr>opt_id = None, opt_name = None, opt_type = None, opt_createdAt = None,
      opt_updatedAt = None\<rparr>"

fun is_open_event :: "event \<Rightarrow> bool" where
  "is_open_event (EvOpen n v) = True"
| "is_open_event (EvCreateObjectStore n) = True"
| "is_open_event _ = False"

fun is_tx_begin :: "event \<Rightarrow> bool" where
  "is_tx_begin (EvTxBegin n m) = True"
| "is_tx_begin _ = False"

text \<open>How many transactions an operation may start.\<close>

fun tx_budget :: "asset_op \<Rightarrow> nat" where
  "tx_budget (GetAssetsByIds ids) = length ids"
| "tx_budget _ = 1"

definition tx_begins :: "event list \<Rightarrow> nat" where
  "tx_begins es = length (filter is_tx_begin es)"

definition no_idb_world :: world where
  "no_idb_world = sample_world\<lparr>indexedDB := False\<rparr>"

definition failing_tenv :: tx_env where
  "failing_tenv =
     \<lparr>request_error = (\<lambda>r. if r = Get ''b'' then Some (DOMException ''DataError'') else None),
      commit = Aborts (Some (DOMException ''UnknownError''))\<rparr>"

definition sample_record :: "string \<Rightarrow> StoredAssetRecord" where
  "sample_record k =
     \<lparr>asset_id = k, asset_name = ''old.png'', asset_type = ''image/png'', asset_size = 3,
      createdAt = 1, updatedAt = 1, blob = sample_blob\<rparr>"

definition stored_world :: "string \<Rightarrow> world" where
  "stored_world k =
     \<lparr>indexedDB = True, open_error = None, db_version = 1, objectStoreNames = [''assets''],
      assets = [(k, sample_record k)], dbPromise = Some (Fulfilled ()), trace = []\<rparr>"

section \<open>Backup and restore over localStorage\<close>

text \<open>
  A value as \<open>JSON.parse\<close> returns it.  A number is kept as an integer: only whether
  it is zero matters here.  \<open>None\<close> stands for \<open>undefined\<close>.
\<close>

datatype json =
    JNull
  | JBool bool
  | JNumber int
  | JString string
  | JArray "json list"
  | JObject "(string \<times> json) list"

fun truthy :: "json option \<Rightarrow> bool" where
  "truthy None = False"
| "truthy (Some JNull) = False"
| "truthy (Some (JBool b)) = b"
| "truthy (Some (JNumber n)) = (n \<noteq> 0)"
| "truthy (Some (JString s)) = (s \<noteq> [])"
| "truthy (Some (JArray xs)) = True"
| "truthy (Some (JObject kvs)) = True"

text \<open>
  Reading a property that no prototype defines (\<open>version\<close>, \<open>documents\<close>): on
  \<open>null\<close> a \<open>TypeError\<close>, on an object its own property, on anything else
  \<open>undefined\<close>.
\<close>

fun get_property :: "json \<Rightarrow> string \<Rightarrow> error + json option" where
  "get_property JNull k = Inl (TypeError ''Cannot read properties of null'')"
| "get_property (JObject kvs) k = Inr (map_of kvs k)"
| "get_property v k = Inr None"

fun has_field :: "json \<Rightarrow> string \<Rightarrow> bool" where
  "has_field (JObject kvs) k = (map_of kvs k \<noteq> None)"
| "has_field v k = False"

fun truthy_field :: "json \<Rightarrow> string \<Rightarrow> bool" where
  "truthy_field (JObject kvs) k = truthy (map_of kvs k)"
| "truthy_field v k = False"

text \<open>What the \<open>FileReader\<close> delivers: \<open>onerror\<close>, or \<open>onload\<close> with the text.\<close>

datatype file_read = ReadFailed | ReadText string

text \<open>
  \<open>importBackup\<close>; \<open>JSON.parse\<close> is the platform's and is passed in (\<open>Inl\<close> is the
  \<open>SyntaxError\<close> it throws).
\<close>

definition importBackup :: "(string \<Rightarrow> error + json) \<Rightarrow> file_read \<Rightarrow> json promise" where
  "importBackup parse f =
     (case f of
        ReadFailed \<Rightarrow> Rejected (Error ''Failed to read file'')
      | ReadText text \<Rightarrow>
          (case parse text of
             Inl e \<Rightarrow> Rejected e
           | Inr data \<Rightarrow>
               (case get_property data ''version'' of
                  Inl e \<Rightarrow> Rejected e
                | Inr version \<Rightarrow>
                    if \<not> truthy version then Rejected (Error ''Invalid backup file format'')
                    else
                      (case get_property data ''documents'' of
                         Inl e \<Rightarrow> Rejected e
                       | Inr documents \<Rightarrow>
                           if \<not> truthy documents
                           then Rejected (Error ''Invalid backup file format'')
                           else Fulfilled data))))"

text \<open>\<open>JSON.parse\<close> on two sample texts, and a \<open>SyntaxError\<close> on any other.\<close>

definition empty_version_text :: string where
  \<open>empty_version_text = ''{"version":"","documents":[]}''\<close>

definition empty_version_value :: json where
  "empty_version_value = JObject [(''version'', JString []), (''documents'', JArray [])]"

definition good_backup_text :: string where
  \<open>good_backup_text = ''{"version":"1.0","timestamp":"2025-01-03","documents":[]}''\<close>

definition good_backup_value :: json where
  "good_backup_value =
     JObject [(''version'', JString ''1.0''), (''timestamp'', JString ''2025-01-03''),
              (''documents'', JArray [])]"

definition sample_parse :: "string \<Rightarrow> error + json" where
  "sample_parse text =
     (if text = empty_version_text then Inr empty_version_value
      else if text = good_backup_text then Inr good_backup_value
      else Inl (SyntaxError ''Unexpected token''))"

text \<open>
  Modelled from the spec: the \<open>Document\<close> type is declared in the localStorage module,
  which is not among the sources; the fields are those of the spec's data model.
  \<open>saveDocument\<close> of that module is a parameter of \<open>restoreBackup\<close>.
\<close>

record Document =
  doc_id :: string
  userId :: string
  title :: string
  description :: string
  doc_content :: json
  lastModified :: string

record BackupData =
  version :: string
  timestamp :: string
  documents :: "Document list"

definition docA :: Document where
  "docA =
     \<lparr>doc_id = ''d1'', userId = ''alice'', title = ''A'', description = [],
      doc_content = JObject [], lastModified = ''2025-01-01''\<rparr>"

definition docB :: Document where
  "docB =
     \<lparr>doc_id = ''d2'', userId = ''bob'', title = ''B'', description = [],
      doc_content = JObject [], lastModified = ''2025-01-02''\<rparr>"

fun restoreBackup_forEach ::
  "(Document \<Rightarrow> 'st \<Rightarrow> 'st) \<Rightarrow> string \<Rightarrow> Document list \<Rightarrow> 'st \<Rightarrow> 'st" where
  "restoreBackup_forEach saveDocument uid [] st = st"
| "restoreBackup_forEach saveDocument uid (doc # docs) st =
     (if userId doc = uid
      then restoreBackup_forEach saveDocument uid docs (saveDocument doc st)
      else restoreBackup_forEach saveDocument uid docs st)"

definition restoreBackup ::
  "(Document \<Rightarrow> 'st \<Rightarrow> 'st) \<Rightarrow> BackupData \<Rightarrow> string \<Rightarrow> 'st \<Rightarrow> 'st" where
  "restoreBackup saveDocument backup uid st =
     restoreBackup_forEach saveDocument uid (documents backup) st"





definition backup_key :: "int \<Rightarrow> string" where
  "backup_key now = ''auto_backup_'' @ show_int now"






section \<open>Sign-in and sign-up with retry\<close>

record auth_error =
  status :: "nat option"
  message :: string

text \<open>What one call of the backend returns: \<open>{ data, error }\<close>.\<close>

record 'd auth_response =
  data :: 'd
  error :: "auth_error option"

record 'd auth_result =
  result_data :: "'d option"
  result_error :: "auth_error option"

datatype auth_event = Called nat | Delayed nat

text \<open>The regular expression \<open>/Service Unavailable|network|fetch failed/i\<close>.\<close>

fun contains_ci :: "string \<Rightarrow> string \<Rightarrow> bool" where
  "contains_ci p [] = (p = [])"
| "contains_ci p (c # cs) = (starts_with_ci p (c # cs) \<or> contains_ci p cs)"

definition transient_message :: "string \<Rightarrow> bool" where
  "transient_message m =
     (contains_ci ''Service Unavailable'' m \<or> contains_ci ''network'' m
      \<or> contains_ci ''fetch failed'' m)"

definition is_transient :: "auth_error \<Rightarrow> bool" where
  "is_transient e = (status e = Some 503 \<or> transient_message (message e))"

text \<open>
  The loop of \<open>signIn\<close> and of \<open>signUp\<close> (the same text in both): \<open>backend n\<close> is
  what the call made at attempt \<open>n\<close> returns; the log records the calls and the delays.
\<close>

function attempt_loop ::
  "(nat \<Rightarrow> 'd auth_response) \<Rightarrow> nat \<Rightarrow> auth_error option \<Rightarrow> auth_event list
     \<Rightarrow> 'd auth_result \<times> auth_event list" where
  "attempt_loop backend attempt lastError tr =
     (if attempt < 3 then
        (case error (backend attempt) of
           None \<Rightarrow>
             (\<lparr>result_data = Some (data (backend attempt)), result_error = None\<rparr>,
              tr @ [Called attempt])
         | Some e \<Rightarrow>
             if is_transient e
             then attempt_loop backend (attempt + 1) (Some e)
                    (tr @ [Called attempt, Delayed (400 * 2 ^ attempt)])
             else (\<lparr>result_data = None, result_error = Some e\<rparr>, tr @ [Called attempt]))
      else (\<lparr>result_data = None, result_error = lastError\<rparr>, tr))"
  by pat_completeness auto
termination
  by (relation "measure (\<lambda>(backend, attempt, lastError, tr). 3 - attempt)") auto

declare attempt_loop.simps [simp del]

record sign_in_request =
  email :: string
  password :: string

record sign_up_request = sign_in_request +
  emailRedirectTo :: string
  mobile_number :: string

definition signIn ::
  "(sign_in_request \<Rightarrow> nat \<Rightarrow> 'd auth_response) \<Rightarrow> string \<Rightarrow> string
     \<Rightarrow> 'd auth_result \<times> auth_event list" where
  "signIn signInWithPassword mobileNumber pw =
     attempt_loop
       (signInWithPassword \<lparr>email = mobileNumber @ ''@app.local'', password = pw\<rparr>)
       0 None []"

definition signUp ::
  "(sign_up_request \<Rightarrow> nat \<Rightarrow> 'd auth_response) \<Rightarrow> string \<Rightarrow> string \<Rightarrow> string \<Rightarrow> string
     \<Rightarrow> 'd auth_result \<times> auth_event list" where
  "signUp backend_signUp origin baseUrl mobileNumber pw =
     attempt_loop
       (backend_signUp
          \<lparr>email = mobileNumber @ ''@app.local'', password = pw,
           emailRedirectTo = origin @ baseUrl, mobile_number = mobileNumber\<rparr>)
       0 None []"

text \<open>Three events occur one right after the other in a log.\<close>

fun adjacent3 :: "'a \<Rightarrow> 'a \<Rightarrow> 'a \<Rightarrow> 'a list \<Rightarrow> bool" where
  "adjacent3 a b c (x # y # z # rest) =
     ((x = a \<and> y = b \<and> z = c) \<or> adjacent3 a b c (y # z # rest))"
| "adjacent3 a b c [x, y] = False"
| "adjacent3 a b c [x] = False"
| "adjacent3 a b c [] = False"

text \<open>A backend that is unavailable twice and then signs the user in, and one that refuses.\<close>

definition unavailable :: auth_error where
  "unavailable = \<lparr>status = Some 503, message = ''Service Unavailable''\<rparr>"

definition invalid_credentials :: auth_error where
  "invalid_credentials = \<lparr>status = Some 400, message = ''Invalid login credentials''\<rparr>"

definition flaky_backend :: "'r \<Rightarrow> nat \<Rightarrow> string auth_response" where
  "flaky_backend req n =
     (if n < 2 then \<lparr>data = [], error = Some unavailable\<rparr>
      else \<lparr>data = ''session'', error = None\<rparr>)"

definition rejecting_backend :: "'r \<Rightarrow> nat \<Rightarrow> string auth_response" where
  "rejecting_backend req n = \<lparr>data = [], error = Some invalid_credentials\<rparr>"

fun is_call :: "auth_event \<Rightarrow> bool" where
  "is_call (Called n) = True"
| "is_call (Delayed ms) = False"

section \<open>The database connection and the transaction wrapper\<close>

lemma dec_nonempty: "dec n \<noteq> []"
  by (subst dec.simps) simp

lemma openDatabase_trace:
  assumes "openDatabase w = (p, w1)"
  shows "\<exists>es. trace w1 = trace w @ es \<and> list_all is_open_event es \<and> \<not> list_ex is_lookup es"
  using assms
  by (auto simp: openDatabase_def getIndexedDB_def log_def onupgradeneeded_def Let_def
      split: option.splits sum.splits if_splits)

lemma openDatabase_assets:
  assumes "openDatabase w = (p, w1)" "STORE_NAME \<in> set (objectStoreNames w)"
  shows "assets w1 = assets w" "STORE_NAME \<in> set (objectStoreNames w1)"
  using assms
  by (auto simp: openDatabase_def getIndexedDB_def log_def onupgradeneeded_def Let_def
      split: option.splits sum.splits if_splits)

lemma runTransaction_elim:
  assumes "runTransaction m ex tenv w = (p, w')"
  obtains (no_db) e where "openDatabase w = (Rejected e, w')" "p = Rejected e"
  | (no_store) w1 where "openDatabase w = (Fulfilled (), w1)" "STORE_NAME \<notin> set (objectStoreNames w1)"
      "p = Rejected (DOMException ''NotFoundError'')" "w' = w1"
  | (request_failed) w1 s e where "openDatabase w = (Fulfilled (), w1)"
      "STORE_NAME \<in> set (objectStoreNames w1)"
      "ex (request_error tenv) \<lparr>content = assets w1, reqs = []\<rparr> = (Inl e, s)"
      "p = Rejected e"
      "trace w' = trace w1 @ EvTxBegin STORE_NAME m # map EvRequest (reqs s) @ [EvAbortCall, EvReject e]"
      "assets w' = assets w1"
  | (completed) w1 s v where "openDatabase w = (Fulfilled (), w1)"
      "STORE_NAME \<in> set (objectStoreNames w1)"
      "ex (request_error tenv) \<lparr>content = assets w1, reqs = []\<rparr> = (Inr v, s)"
      "commit tenv = Completes"
      "p = Fulfilled v"
      "trace w' = trace w1 @ EvTxBegin STORE_NAME m # map EvRequest (reqs s) @ [EvTxComplete, EvResolve]"
      "assets w' = content s"
  | (not_committed) w1 s v e ev where "openDatabase w = (Fulfilled (), w1)"
      "STORE_NAME \<in> set (objectStoreNames w1)"
      "ex (request_error tenv) \<lparr>content = assets w1, reqs = []\<rparr> = (Inr v, s)"
      "commit tenv \<noteq> Completes"
      "p = Rejected e"
      "ev = EvTxAbort \<or> ev = EvTxError"
      "trace w' = trace w1 @ EvTxBegin STORE_NAME m # map EvRequest (reqs s) @ [ev, EvReject e]"
      "assets w' = assets w1"
proof (cases "openDatabase w")
  case (Pair p1 w1)
  show ?thesis
  proof (cases p1)
    case (Rejected e)
    with Pair assms show ?thesis by (intro no_db[of e]) (auto simp: runTransaction_def)
  next
    case (Fulfilled u)
    show ?thesis
    proof (cases "STORE_NAME \<in> set (objectStoreNames w1)")
      case False
      with Pair Fulfilled assms show ?thesis by (intro no_store[of w1]) (auto simp: runTransaction_def)
    next
      case True
      obtain r s where ex: "ex (request_error tenv) \<lparr>content = assets w1, reqs = []\<rparr> = (r, s)"
        by (cases "ex (request_error tenv) \<lparr>content = assets w1, reqs = []\<rparr>")
      have lg: "assets (log [EvTxBegin STORE_NAME m] w1) = assets w1" by (simp add: log_def)
      show ?thesis
      proof (cases r)
        case (Inl e)
        with Pair Fulfilled True ex lg assms show ?thesis
          by (intro request_failed[of w1 e s]) (auto simp: runTransaction_def log_def Let_def)
      next
        case (Inr v)
        show ?thesis
        proof (cases "commit tenv")
          case Completes
          with Pair Fulfilled True ex lg Inr assms show ?thesis
            by (intro completed[of w1 v s]) (auto simp: runTransaction_def log_def Let_def)
        next
          case (Aborts eo)
          with Pair Fulfilled True ex lg Inr assms show ?thesis
            by (intro not_committed[of w1 v s _ EvTxAbort]) (auto simp: runTransaction_def log_def Let_def)
        next
          case (Fails eo)
          with Pair Fulfilled True ex lg Inr assms show ?thesis
            by (intro not_committed[of w1 v s _ EvTxError]) (auto simp: runTransaction_def log_def Let_def)
        qed
      qed
    qed
  qed
qed

section \<open>Properties of saveAsset\<close>

lemma new_record_fields:
  "asset_id (new_record ident now fl options existing) = ident"
  "asset_size (new_record ident now fl options existing) = blob_size fl"
  "blob (new_record ident now fl options existing) = fl"
  "updatedAt (new_record ident now fl options existing)
     = (case opt_updatedAt options of Some u \<Rightarrow> u | None \<Rightarrow> now)"
  "createdAt (new_record ident now fl options existing)
     = (case opt_createdAt options of
          Some c \<Rightarrow> c
        | None \<Rightarrow> (case existing of Some r \<Rightarrow> createdAt r | None \<Rightarrow> now))"
  by (simp_all add: new_record_def)

lemma saveAsset_executor_Inr:
  assumes "saveAsset_executor ident now fl options rerr s = (Inr m, s')"
  shows "\<exists>r. m = StoredAssetMetadata.truncate r \<and> blob r = fl \<and> asset_id r = ident
       \<and> asset_size r = blob_size fl
       \<and> content s' = AList.update ident r (content s)
       \<and> updatedAt r = (case opt_updatedAt options of Some u \<Rightarrow> u | None \<Rightarrow> now)
       \<and> createdAt r = (case opt_createdAt options of Some c \<Rightarrow> c
            | None \<Rightarrow> (if truthy_str (opt_id options)
                 then (case map_of (content s) ident of Some old \<Rightarrow> createdAt old | None \<Rightarrow> now)
                 else now))"
proof (cases "truthy_str (opt_id options)")
  case True
  with assms have g: "rerr (Get ident) = None"
    by (auto simp: saveAsset_executor_def idb_get_def split: option.splits)
  let ?r = "new_record ident now fl options (map_of (content s) ident)"
  from assms True g have "m = StoredAssetMetadata.truncate ?r"
    and "content s' = AList.update ident ?r (content s)"
    by (auto simp: saveAsset_executor_def idb_get_def idb_put_def place_def Let_def
        new_record_fields split: option.splits)
  with True show ?thesis
    by (intro exI[of _ ?r]) (simp add: new_record_fields split: option.splits)
next
  case False
  let ?r = "new_record ident now fl options None"
  from assms False have "m = StoredAssetMetadata.truncate ?r"
    and "content s' = AList.update ident ?r (content s)"
    by (auto simp: saveAsset_executor_def idb_put_def place_def Let_def
        new_record_fields split: option.splits)
  with False show ?thesis
    by (intro exI[of _ ?r]) (simp add: new_record_fields split: option.splits)
qed

lemma saveAsset_executor_no_lookup:
  assumes "\<not> truthy_str (opt_id options)"
  shows "\<exists>r. reqs (snd (saveAsset_executor ident now fl options rerr s)) = reqs s @ [Put r]"
  using assms
  by (simp add: saveAsset_executor_def idb_put_def place_def Let_def split: option.splits)

lemma saveAsset_executor_sound:
  "sound_executor t (saveAsset_executor ident now fl options)"
proof -
  have "\<exists>new. reqs s' = reqs s @ new \<and> request_outcome_ok rerr new r"
    if run: "saveAsset_executor ident now fl options rerr s = (r, s')" for rerr s r s'
  proof (cases "truthy_str (opt_id options)")
    case True
    show ?thesis
    proof (cases "rerr (Get ident)")
      case (Some e)
      with run True show ?thesis
        by (auto simp: saveAsset_executor_def idb_get_def place_def request_outcome_ok_def)
    next
      case None
      with run True show ?thesis
        by (auto simp: saveAsset_executor_def idb_get_def idb_put_def place_def Let_def
            request_outcome_ok_def split: option.splits)
    qed
  next
    case False
    with run show ?thesis
      by (auto simp: saveAsset_executor_def idb_put_def place_def Let_def
          request_outcome_ok_def split: option.splits)
  qed
  then show ?thesis
    unfolding sound_executor_def by (metis prod.collapse)
qed

lemma getAsset_executor_sound: "sound_executor t (getAsset_executor k)"
  by (auto simp: sound_executor_def getAsset_executor_def idb_get_def place_def
      request_outcome_ok_def split: option.splits)

lemma deleteAsset_executor_sound: "sound_executor t (deleteAsset_executor k)"
  by (auto simp: sound_executor_def deleteAsset_executor_def idb_delete_def place_def
      request_outcome_ok_def split: option.splits)

lemma listAllAssets_executor_sound: "sound_executor t listAllAssets_executor"
  by (auto simp: sound_executor_def listAllAssets_executor_def idb_getAll_def place_def
      request_outcome_ok_def split: option.splits)

lemma clearAllAssets_executor_sound: "sound_executor t clearAllAssets_executor"
  by (auto simp: sound_executor_def clearAllAssets_executor_def idb_clear_def place_def
      request_outcome_ok_def split: option.splits)

lemma sound_executorD:
  assumes "sound_executor t ex" "ex (request_error t) s = (r, s')"
  shows "\<exists>new. reqs s' = reqs s @ new \<and> request_outcome_ok (request_error t) new r"
  using assms unfolding sound_executor_def by (metis fst_conv snd_conv)

lemma truncate_fields:
  "asset_id (StoredAssetMetadata.truncate r) = asset_id r"
  "asset_name (StoredAssetMetadata.truncate r) = asset_name r"
  "asset_type (StoredAssetMetadata.truncate r) = asset_type r"
  "asset_size (StoredAssetMetadata.truncate r) = asset_size r"
  "createdAt (StoredAssetMetadata.truncate r) = createdAt r"
  "updatedAt (StoredAssetMetadata.truncate r) = updatedAt r"
  by (simp_all add: StoredAssetMetadata.truncate_def)

lemma new_events_append: "trace w' = trace w @ es \<Longrightarrow> new_events w w' = es"
  by (simp add: new_events_def)

text \<open>
  C10: when no id is supplied in the options, \<open>saveAsset\<close> places no lookup request,
  the record is stored under the generated id, and without \<open>createdAt\<close> and
  \<open>updatedAt\<close> overrides the returned metadata carries the time read at the start of
  the call in both fields.
\<close>

theorem saveAsset_without_id:
  assumes "opt_id options = None"
    and "saveAsset e tenv file options w = (p, w')"
  shows "\<not> list_ex is_lookup (new_events w w')
    \<and> (\<forall>m. p = Fulfilled m \<longrightarrow>
          asset_id m = generateId e
        \<and> (\<exists>r. map_of (assets w') (generateId e) = Some r
               \<and> StoredAssetMetadata.truncate r = m \<and> blob r = file)
        \<and> (opt_createdAt options = None \<longrightarrow> createdAt m = clock e)
        \<and> (opt_updatedAt options = None \<longrightarrow> updatedAt m = clock e)
        \<and> (opt_createdAt options = None \<and> opt_updatedAt options = None
             \<longrightarrow> createdAt m = updatedAt m))"
proof -
  let ?ex = "saveAsset_executor (generateId e) (clock e) file options"
  from assms have run: "runTransaction ReadWrite ?ex tenv w = (p, w')"
    by (simp add: saveAsset_def)
  have nl: "\<not> truthy_str (opt_id options)" using assms(1) by simp
  have reqs: "\<And>s. \<not> list_ex is_lookup (map EvRequest (reqs (snd (?ex (request_error tenv) \<lparr>content = s, reqs = []\<rparr>))))"
  proof -
    fix s
    from saveAsset_executor_no_lookup[OF nl, where ident="generateId e" and now="clock e" and fl="file" and rerr="request_error tenv" and s="\<lparr>content = s, reqs = []\<rparr>"]
    obtain r where "reqs (snd (?ex (request_error tenv) \<lparr>content = s, reqs = []\<rparr>)) = [Put r]" by auto
    then show "\<not> list_ex is_lookup (map EvRequest (reqs (snd (?ex (request_error tenv) \<lparr>content = s, reqs = []\<rparr>))))"
      by simp
  qed
  from run show ?thesis
  proof (cases rule: runTransaction_elim)
    case (no_db err)
    from openDatabase_trace[OF no_db(1)] obtain es where "trace w' = trace w @ es" "\<not> list_ex is_lookup es" by blast
    with no_db show ?thesis by (simp add: new_events_append)
  next
    case (no_store w1)
    from openDatabase_trace[OF no_store(1)] obtain es where "trace w1 = trace w @ es" "\<not> list_ex is_lookup es" by blast
    with no_store show ?thesis by (simp add: new_events_append)
  next
    case (request_failed w1 s err)
    from openDatabase_trace[OF request_failed(1)] obtain es where es: "trace w1 = trace w @ es" "\<not> list_ex is_lookup es" by blast
    from reqs[of "assets w1"] request_failed(3) have "\<not> list_ex is_lookup (map EvRequest (reqs s))" by simp
    with es request_failed show ?thesis by (simp add: new_events_append)
  next
    case (completed w1 s m)
    from openDatabase_trace[OF completed(1)] obtain es where es: "trace w1 = trace w @ es" "\<not> list_ex is_lookup es" by blast
    from reqs[of "assets w1"] completed(3) have nr: "\<not> list_ex is_lookup (map EvRequest (reqs s))" by simp
    from saveAsset_executor_Inr[OF completed(3)] obtain r where
      r: "m = StoredAssetMetadata.truncate r" "blob r = file" "asset_id r = generateId e"
         "content s = AList.update (generateId e) r (assets w1)"
         "updatedAt r = (case opt_updatedAt options of Some u \<Rightarrow> u | None \<Rightarrow> clock e)"
         "createdAt r = (case opt_createdAt options of Some c \<Rightarrow> c | None \<Rightarrow> clock e)"
      using nl by auto
    have "map_of (assets w') (generateId e) = Some r"
      using completed(7) r(4) by (simp add: update_conv')
    with es nr completed r show ?thesis
      by (auto simp: new_events_append truncate_fields)
  next
    case (not_committed w1 s m err ev)
    from openDatabase_trace[OF not_committed(1)] obtain es where es: "trace w1 = trace w @ es" "\<not> list_ex is_lookup es" by blast
    from reqs[of "assets w1"] not_committed(3) have "\<not> list_ex is_lookup (map EvRequest (reqs s))" by simp
    with es not_committed show ?thesis by (auto simp add: new_events_append)
  qed
qed

theorem saveAsset_without_id_witness:
  "opt_id no_options = None
   \<and> \<not> list_ex is_lookup (new_events sample_world
          (snd (saveAsset sample_env sample_tenv sample_blob no_options sample_world)))
   \<and> (\<exists>m. fst (saveAsset sample_env sample_tenv sample_blob no_options sample_world) = Fulfilled m
          \<and> asset_id m = ''uuid-1'' \<and> createdAt m = 1000 \<and> updatedAt m = 1000)"
proof -
  have h: "opt_id no_options = None" by (simp add: no_options_def)
  have run: "fst (saveAsset sample_env sample_tenv sample_blob no_options sample_world)
      = Fulfilled \<lparr>asset_id = ''uuid-1'', asset_name = ''pic.png'', asset_type = ''image/png'',
          asset_size = 3, createdAt = 1000, updatedAt = 1000\<rparr>"
    by code_simp
  have env: "generateId sample_env = ''uuid-1''" "clock sample_env = 1000"
    by (simp_all add: generateId_def sample_env_def)
  from saveAsset_without_id[OF h prod.collapse[symmetric]] run env h
  show ?thesis by (simp add: no_options_def)
qed

lemma openDatabase_lookup_None:
  assumes "openDatabase w = (p, w1)" "map_of (assets w) k = None"
  shows "map_of (assets w1) k = None"
  using assms
  by (auto simp: openDatabase_def getIndexedDB_def log_def onupgradeneeded_def Let_def
      split: option.splits sum.splits if_splits)

text \<open>
  C1 (amended): a successful \<open>saveAsset\<close> without a \<open>createdAt\<close> override keeps the
  \<open>createdAt\<close> of the record already stored under a non-empty caller-supplied id;
  \<open>updatedAt\<close> is the current time when no \<open>updatedAt\<close> override is given, and an
  override is stored as given; when no id is supplied or no record is stored under it,
  \<open>createdAt\<close> is the current time; and the stored record carries the returned
  metadata.
\<close>

theorem saveAsset_createdAt:
  assumes "saveAsset e tenv file options w = (Fulfilled m, w')"
    and "opt_createdAt options = None"
  shows "(\<forall>k old. opt_id options = Some k \<and> k \<noteq> [] \<and> STORE_NAME \<in> set (objectStoreNames w)
              \<and> map_of (assets w) k = Some old
            \<longrightarrow> createdAt m = createdAt old)
       \<and> (opt_updatedAt options = None \<longrightarrow> updatedAt m = clock e)
       \<and> (\<forall>u. opt_updatedAt options = Some u \<longrightarrow> updatedAt m = u)
       \<and> (opt_id options = None \<or> (\<exists>k. opt_id options = Some k \<and> map_of (assets w) k = None)
            \<longrightarrow> createdAt m = clock e)
       \<and> (\<exists>r. map_of (assets w') (asset_id m) = Some r \<and> StoredAssetMetadata.truncate r = m
              \<and> blob r = file)"
proof -
  define ident where "ident = (case opt_id options of Some i \<Rightarrow> i | None \<Rightarrow> generateId e)"
  let ?ex = "saveAsset_executor ident (clock e) file options"
  from assms(1) have run: "runTransaction ReadWrite ?ex tenv w = (Fulfilled m, w')"
    by (simp add: saveAsset_def ident_def)
  from run show ?thesis
  proof (cases rule: runTransaction_elim)
    case (completed w1 s v)
    then have v: "v = m" by simp
    from saveAsset_executor_Inr[OF completed(3)] v obtain r where
      r: "m = StoredAssetMetadata.truncate r" "blob r = file" "asset_id r = ident"
         "content s = AList.update ident r (assets w1)"
         "updatedAt r = (case opt_updatedAt options of Some u \<Rightarrow> u | None \<Rightarrow> clock e)"
         "createdAt r = (if truthy_str (opt_id options)
                 then (case map_of (assets w1) ident of Some old \<Rightarrow> createdAt old | None \<Rightarrow> clock e)
                 else clock e)"
      using assms(2) by auto
    have stored: "map_of (assets w') (asset_id m) = Some r"
      using completed(7) r(1,3,4) by (simp add: update_conv' truncate_fields)
    have keep: "createdAt m = createdAt old"
      if "opt_id options = Some k" "k \<noteq> []" "STORE_NAME \<in> set (objectStoreNames w)"
         "map_of (assets w) k = Some old" for k old
    proof -
      from openDatabase_assets(1)[OF completed(1) that(3)] that(4)
      have "map_of (assets w1) k = Some old" by simp
      with that(1,2) r(1,6) show ?thesis by (simp add: ident_def truncate_fields)
    qed
    have fresh: "createdAt m = clock e"
      if "opt_id options = None \<or> (\<exists>k. opt_id options = Some k \<and> map_of (assets w) k = None)"
    proof -
      from that show ?thesis
      proof
        assume "opt_id options = None"
        with r(1,6) show ?thesis by (simp add: truncate_fields)
      next
        assume "\<exists>k. opt_id options = Some k \<and> map_of (assets w) k = None"
        then obtain k where k: "opt_id options = Some k" "map_of (assets w) k = None" by blast
        from openDatabase_lookup_None[OF completed(1) k(2)]
        have "map_of (assets w1) k = None" .
        with k(1) r(1,6) show ?thesis by (simp add: ident_def truncate_fields)
      qed
    qed
    have upd: "opt_updatedAt options = None \<longrightarrow> updatedAt m = clock e"
      using r(1,5) by (simp add: truncate_fields)
    have given: "\<forall>u. opt_updatedAt options = Some u \<longrightarrow> updatedAt m = u"
      using r(1,5) by (simp add: truncate_fields)
    from keep fresh upd given stored r(1,2) show ?thesis by blast
  qed simp_all
qed

theorem saveAsset_createdAt_witness:
  "opt_createdAt (no_options\<lparr>opt_id := Some ''a''\<rparr>) = None
   \<and> STORE_NAME \<in> set (objectStoreNames (stored_world ''a''))
   \<and> map_of (assets (stored_world ''a'')) ''a'' = Some (sample_record ''a'')
   \<and> createdAt (sample_record ''a'') = 1 \<and> clock sample_env = 1000
   \<and> (\<exists>m. fst (saveAsset sample_env sample_tenv sample_blob (no_options\<lparr>opt_id := Some ''a''\<rparr>)
                 (stored_world ''a'')) = Fulfilled m
          \<and> createdAt m = 1 \<and> updatedAt m = 1000)
   \<and> opt_createdAt (no_options\<lparr>opt_id := Some ''a'', opt_updatedAt := Some 5\<rparr>) = None
   \<and> (\<exists>m. fst (saveAsset sample_env sample_tenv sample_blob
                 (no_options\<lparr>opt_id := Some ''a'', opt_updatedAt := Some 5\<rparr>)
                 (stored_world ''a'')) = Fulfilled m
          \<and> createdAt m = 1 \<and> updatedAt m = 5)"
proof -
  let ?o = "no_options\<lparr>opt_id := Some ''a''\<rparr>"
  let ?r = "saveAsset sample_env sample_tenv sample_blob ?o (stored_world ''a'')"
  let ?o5 = "no_options\<lparr>opt_id := Some ''a'', opt_updatedAt := Some 5\<rparr>"
  let ?r5 = "saveAsset sample_env sample_tenv sample_blob ?o5 (stored_world ''a'')"
  have run: "fst ?r = Fulfilled \<lparr>asset_id = ''a'', asset_name = ''pic.png'', asset_type = ''image/png'',
            asset_size = 3, createdAt = 1, updatedAt = 1000\<rparr>"
    by code_simp
  have run5: "fst ?r5 = Fulfilled \<lparr>asset_id = ''a'', asset_name = ''pic.png'', asset_type = ''image/png'',
            asset_size = 3, createdAt = 1, updatedAt = 5\<rparr>"
    by code_simp
  have h: "opt_createdAt ?o = None" "opt_updatedAt ?o = None" "opt_id ?o = Some ''a''"
    by (simp_all add: no_options_def)
  have h5: "opt_createdAt ?o5 = None" "opt_updatedAt ?o5 = Some 5" "opt_id ?o5 = Some ''a''"
    by (simp_all add: no_options_def)
  have st: "STORE_NAME \<in> set (objectStoreNames (stored_world ''a''))"
    "map_of (assets (stored_world ''a'')) ''a'' = Some (sample_record ''a'')"
    "createdAt (sample_record ''a'') = 1" "clock sample_env = 1000"
    by (simp_all add: stored_world_def STORE_NAME_def sample_record_def sample_env_def)
  have eq: "?r = (Fulfilled \<lparr>asset_id = ''a'', asset_name = ''pic.png'', asset_type = ''image/png'',
            asset_size = 3, createdAt = 1, updatedAt = 1000\<rparr>, snd ?r)"
    using run by (metis prod.collapse)
  from run5 obtain m5 where m5: "fst ?r5 = Fulfilled m5" by blast
  then have eq5: "?r5 = (Fulfilled m5, snd ?r5)" by (metis prod.collapse)
  from saveAsset_createdAt[OF eq5 h5(1)] h5 st
  have "createdAt m5 = 1 \<and> updatedAt m5 = 5" by simp
  with m5 have second: "\<exists>m. fst ?r5 = Fulfilled m \<and> createdAt m = 1 \<and> updatedAt m = 5" by blast
  from saveAsset_createdAt[OF eq h(1)] h st run
  have first: "\<exists>m. fst ?r = Fulfilled m \<and> createdAt m = 1 \<and> updatedAt m = 1000" by simp
  from first second h(1) h5(1) st show ?thesis by blast
qed

text \<open>
  The claim as written fails on two inputs: an \<open>updatedAt\<close> override is stored instead
  of a fresh stamp, and the empty string as id is used as the key but, being falsy, is not
  looked up, so the stored \<open>createdAt\<close> is replaced.
\<close>

theorem saveAsset_createdAt_counterexample:
  "map_of (assets (stored_world ''a'')) ''a'' = Some (sample_record ''a'')
   \<and> createdAt (sample_record ''a'') = 1 \<and> clock sample_env = 1000
   \<and> fst (saveAsset sample_env sample_tenv sample_blob
            (no_options\<lparr>opt_id := Some ''a'', opt_updatedAt := Some 5\<rparr>) (stored_world ''a''))
       = Fulfilled \<lparr>asset_id = ''a'', asset_name = ''pic.png'', asset_type = ''image/png'',
            asset_size = 3, createdAt = 1, updatedAt = 5\<rparr>
   \<and> map_of (assets (stored_world [])) [] = Some (sample_record [])
   \<and> createdAt (sample_record []) = 1
   \<and> fst (saveAsset sample_env sample_tenv sample_blob
            (no_options\<lparr>opt_id := Some []\<rparr>) (stored_world []))
       = Fulfilled \<lparr>asset_id = [], asset_name = ''pic.png'', asset_type = ''image/png'',
            asset_size = 3, createdAt = 1000, updatedAt = 1000\<rparr>"
  by code_simp

section \<open>Without IndexedDB\<close>

lemma openDatabase_unsupported:
  assumes "\<not> indexedDB w" "dbPromise w = None"
  shows "openDatabase w =
     (Rejected (Error ''IndexedDB is not supported in this environment.''),
      w\<lparr>dbPromise := Some (Rejected (Error ''IndexedDB is not supported in this environment.''))\<rparr>)"
  using assms by (simp add: openDatabase_def getIndexedDB_def)

lemma openDatabase_memo: "dbPromise w = Some p \<Longrightarrow> openDatabase w = (p, w)"
  by (simp add: openDatabase_def)

lemma runTransaction_no_db:
  "openDatabase w = (Rejected err, w1) \<Longrightarrow> runTransaction m ex t w = (Rejected err, w1)"
  by (simp add: runTransaction_def)

lemma getAsset_no_db:
  "openDatabase w = (Rejected err, w1) \<Longrightarrow> getAsset t k w = (Rejected err, w1)"
  by (simp add: getAsset_def runTransaction_no_db)

lemma getAssetsByIds_no_db:
  assumes "openDatabase w = (Rejected err, w1)" "ids \<noteq> []"
  shows "getAssetsByIds t ids w = (Rejected err, w1)"
  using assms by (simp add: getAssetsByIds_def)

lemma perform_no_db:
  assumes "openDatabase w = (Rejected err, w1)" "openDatabase w1 = (Rejected err, w1)"
    and "opens_database op"
  shows "perform e t op w = (Rejected err, w1)"
proof (cases op)
  case (SaveAssetFromDataUrl u opts)
  with assms(3) obtain b where "dataUrlToBlob u = Inr b" by (cases "dataUrlToBlob u") auto
  with SaveAssetFromDataUrl show ?thesis
    by (simp add: saveAssetFromDataUrl_def saveAsset_def runTransaction_no_db[OF assms(1)])
next
  case (GetAssetsByIds ids)
  with assms show ?thesis by (simp add: getAssetsByIds_no_db)
qed (simp_all add: saveAsset_def getAsset_def getAssetDataUrl_def getAssetObjectUrl_def
      deleteAsset_def listAllAssets_def clearAllAssets_def runTransaction_no_db[OF assms(1)])

text \<open>
  C8 (amended): where \<open>indexedDB\<close> is absent and no connection is memoised, every
  operation that reaches \<open>openDatabase\<close> returns a promise rejected with the
  descriptive error (it does not throw), the rejected connection promise is memoised, and
  every later call is rejected with the same error without another attempt, also when
  \<open>indexedDB\<close> has become available.
\<close>

theorem missing_indexedDB:
  assumes "\<not> indexedDB w" and "dbPromise w = None" and "opens_database op"
  shows "call e t op w =
           (Returned (Rejected (Error ''IndexedDB is not supported in this environment.'')),
            w\<lparr>dbPromise := Some (Rejected (Error ''IndexedDB is not supported in this environment.''))\<rparr>)
       \<and> (\<forall>e' t' op' available. opens_database op' \<longrightarrow>
            call e' t' op'
              (w\<lparr>dbPromise := Some (Rejected (Error ''IndexedDB is not supported in this environment.'')),
                 indexedDB := available\<rparr>)
            = (Returned (Rejected (Error ''IndexedDB is not supported in this environment.'')),
               w\<lparr>dbPromise := Some (Rejected (Error ''IndexedDB is not supported in this environment.'')),
                 indexedDB := available\<rparr>))"
proof -
  let ?err = "Error ''IndexedDB is not supported in this environment.''"
  let ?w1 = "w\<lparr>dbPromise := Some (Rejected ?err)\<rparr>"
  have o1: "openDatabase w = (Rejected ?err, ?w1)" by (rule openDatabase_unsupported[OF assms(1,2)])
  have o2: "openDatabase (?w1\<lparr>indexedDB := a\<rparr>) = (Rejected ?err, ?w1\<lparr>indexedDB := a\<rparr>)" for a
    by (simp add: openDatabase_memo)
  have o3: "openDatabase ?w1 = (Rejected ?err, ?w1)" by (simp add: openDatabase_memo)
  have first: "call e t op w = (Returned (Rejected ?err), ?w1)"
    by (simp add: call_def perform_no_db[OF o1 o3 assms(3)])
  have later: "call e' t' op' (?w1\<lparr>indexedDB := a\<rparr>) = (Returned (Rejected ?err), ?w1\<lparr>indexedDB := a\<rparr>)"
    if "opens_database op'" for e' t' op' a
    by (simp add: call_def perform_no_db[OF o2 o2 that])
  from first later show ?thesis by blast
qed

theorem missing_indexedDB_witness:
  "\<not> indexedDB no_idb_world \<and> dbPromise no_idb_world = None \<and> opens_database (GetAsset ''x'')
   \<and> fst (call sample_env sample_tenv (GetAsset ''x'') no_idb_world)
       = Returned (Rejected (Error ''IndexedDB is not supported in this environment.''))
   \<and> fst (call sample_env sample_tenv ClearAllAssets
            (no_idb_world\<lparr>dbPromise := Some (Rejected (Error ''IndexedDB is not supported in this environment.'')),
                           indexedDB := True\<rparr>))
       = Returned (Rejected (Error ''IndexedDB is not supported in this environment.''))"
proof -
  have h: "\<not> indexedDB no_idb_world" "dbPromise no_idb_world = None" "opens_database (GetAsset ''x'')"
    "opens_database ClearAllAssets"
    by (simp_all add: no_idb_world_def sample_world_def)
  from missing_indexedDB[OF h(1,2,3), of sample_env sample_tenv] h
  show ?thesis by simp
qed

text \<open>
  The call returns normally with a rejected promise instead of throwing, and
  \<open>getAssetsByIds\<close> of no id does not fail at all.
\<close>

theorem missing_indexedDB_counterexample:
  "fst (call sample_env sample_tenv (GetAsset ''x'') no_idb_world)
     = Returned (Rejected (Error ''IndexedDB is not supported in this environment.''))
   \<and> fst (call sample_env sample_tenv (GetAsset ''x'') no_idb_world)
     \<noteq> Threw (Error ''IndexedDB is not supported in this environment.'')
   \<and> map_promise (\<lambda>r. ()) (fst (perform sample_env sample_tenv (GetAssetsByIds []) no_idb_world))
     = Fulfilled ()"
  by (simp add: call_def getAsset_def getAssetsByIds_def runTransaction_def openDatabase_def
      getIndexedDB_def no_idb_world_def sample_world_def)

section \<open>Transactions of the operations\<close>

lemma open_event_not_request: "list_all is_open_event es \<Longrightarrow> EvRequest q \<notin> set es"
  by (induction es) auto

lemma open_event_not_tx_begin: "list_all is_open_event es \<Longrightarrow> filter is_tx_begin es = []"
  by (induction es) (auto elim: is_open_event.elims)

lemma request_not_tx_begin: "filter is_tx_begin (map EvRequest rs) = []"
  by (induction rs) auto

lemma openDatabase_dbPromise:
  assumes "openDatabase w = (p, w1)"
  shows "dbPromise w1 = Some p"
  using assms
  by (auto simp: openDatabase_def getIndexedDB_def log_def onupgradeneeded_def Let_def
      split: option.splits sum.splits if_splits)

lemma openDatabase_idem:
  assumes "openDatabase w = (p, w1)"
  shows "openDatabase w1 = (p, w1)"
  using openDatabase_dbPromise[OF assms] by (simp add: openDatabase_def)

text \<open>One transaction: the shape of what it logs.\<close>

lemma runTransaction_events:
  assumes run: "runTransaction m ex t w = (p, w')"
    and sound: "sound_executor t ex"
  obtains (ev_unopened) ini e where "new_events w w' = ini" "list_all is_open_event ini"
      "p = Rejected e" "openDatabase w' = (Rejected e, w') \<or> (openDatabase w' = (Fulfilled (), w') \<and> STORE_NAME \<notin> set (objectStoreNames w'))"
  | (ev_failed) ini rs q e where
      "new_events w w' = ini @ EvTxBegin STORE_NAME m # map EvRequest rs @ [EvRequest q, EvAbortCall, EvReject e]"
      "list_all is_open_event ini" "list_all (\<lambda>q. request_error t q = None) rs"
      "request_error t q = Some e" "p = Rejected e"
      "openDatabase w' = (Fulfilled (), w')" "STORE_NAME \<in> set (objectStoreNames w')"
  | (ev_completed) ini rs v where
      "new_events w w' = ini @ EvTxBegin STORE_NAME m # map EvRequest rs @ [EvTxComplete, EvResolve]"
      "list_all is_open_event ini" "list_all (\<lambda>q. request_error t q = None) rs"
      "p = Fulfilled v" "commit t = Completes"
      "openDatabase w' = (Fulfilled (), w')" "STORE_NAME \<in> set (objectStoreNames w')"
  | (ev_not_committed) ini rs ev e where
      "new_events w w' = ini @ EvTxBegin STORE_NAME m # map EvRequest rs @ [ev, EvReject e]"
      "list_all is_open_event ini" "list_all (\<lambda>q. request_error t q = None) rs"
      "ev = EvTxAbort \<or> ev = EvTxError"
      "p = Rejected e" "commit t \<noteq> Completes"
      "openDatabase w' = (Fulfilled (), w')" "STORE_NAME \<in> set (objectStoreNames w')"
  using run
proof (cases rule: runTransaction_elim)
  case (no_db e)
  from openDatabase_trace[OF no_db(1)] obtain es where "trace w' = trace w @ es" "list_all is_open_event es" by blast
  with no_db openDatabase_idem[OF no_db(1)] show ?thesis
    by (intro ev_unopened[of es e]) (simp_all add: new_events_append)
next
  case (no_store w1)
  from openDatabase_trace[OF no_store(1)] obtain es where "trace w1 = trace w @ es" "list_all is_open_event es" by blast
  with no_store openDatabase_idem[OF no_store(1)] show ?thesis
    by (intro ev_unopened[of es "DOMException ''NotFoundError''"]) (simp_all add: new_events_append)
next
  case (request_failed w1 s e)
  from openDatabase_trace[OF request_failed(1)] obtain es where es: "trace w1 = trace w @ es" "list_all is_open_event es" by blast
  from sound_executorD[OF sound request_failed(3)] obtain new where new: "reqs s = new" "new \<noteq> []"
    "request_error t (last new) = Some e" "list_all (\<lambda>q. request_error t q = None) (butlast new)"
    by (auto simp: request_outcome_ok_def)
  have dbp: "dbPromise w' = dbPromise w1" "objectStoreNames w' = objectStoreNames w1"
    using run request_failed(1,2,3)
    by (auto simp: runTransaction_def Let_def log_def)
  from openDatabase_dbPromise[OF request_failed(1)] have "dbPromise w1 = Some (Fulfilled ())" .
  with dbp have op': "openDatabase w' = (Fulfilled (), w')" by (simp add: openDatabase_def)
  have "map EvRequest new = map EvRequest (butlast new) @ [EvRequest (last new)]"
    using new(2) by (metis append_butlast_last_id list.simps(8,9) map_append)
  with es new request_failed op' dbp show ?thesis
    by (intro ev_failed[of es "butlast new" "last new" e]) (simp_all add: new_events_append)
next
  case (completed w1 s v)
  from openDatabase_trace[OF completed(1)] obtain es where es: "trace w1 = trace w @ es" "list_all is_open_event es" by blast
  from sound_executorD[OF sound completed(3)] have new: "list_all (\<lambda>q. request_error t q = None) (reqs s)"
    by (auto simp: request_outcome_ok_def)
  have dbp: "dbPromise w' = dbPromise w1" "objectStoreNames w' = objectStoreNames w1"
    using run completed(1,2,3,4)
    by (auto simp: runTransaction_def Let_def log_def)
  from openDatabase_dbPromise[OF completed(1)] have "dbPromise w1 = Some (Fulfilled ())" .
  with dbp have op': "openDatabase w' = (Fulfilled (), w')" by (simp add: openDatabase_def)
  with es new completed dbp show ?thesis
    by (intro ev_completed[of es "reqs s" v]) (simp_all add: new_events_append)
next
  case (not_committed w1 s v e ev)
  from openDatabase_trace[OF not_committed(1)] obtain es where es: "trace w1 = trace w @ es" "list_all is_open_event es" by blast
  from sound_executorD[OF sound not_committed(3)] have new: "list_all (\<lambda>q. request_error t q = None) (reqs s)"
    by (auto simp: request_outcome_ok_def)
  have dbp: "dbPromise w' = dbPromise w1" "objectStoreNames w' = objectStoreNames w1"
    using run not_committed(1,2,3,4)
    by (cases "commit t"; auto simp: runTransaction_def Let_def log_def)+
  from openDatabase_dbPromise[OF not_committed(1)] have "dbPromise w1 = Some (Fulfilled ())" .
  with dbp have op': "openDatabase w' = (Fulfilled (), w')" by (simp add: openDatabase_def)
  with es new not_committed dbp show ?thesis
    by (intro ev_not_committed[of es "reqs s" ev e]) (simp_all add: new_events_append)
qed

lemma runTransaction_grows:
  assumes "runTransaction m ex t w = (p, w')"
  shows "trace w' = trace w @ new_events w w'"
proof -
  have "\<exists>es. trace w' = trace w @ es"
    using assms
  proof (cases rule: runTransaction_elim)
    case (no_db e)
    from openDatabase_trace[OF no_db(1)] show ?thesis by blast
  next
    case (no_store w1)
    from openDatabase_trace[OF no_store(1)] no_store(4) show ?thesis by blast
  next
    case (request_failed w1 s e)
    from openDatabase_trace[OF request_failed(1)] request_failed(5) show ?thesis by auto
  next
    case (completed w1 s v)
    from openDatabase_trace[OF completed(1)] completed(6) show ?thesis by auto
  next
    case (not_committed w1 s v e ev)
    from openDatabase_trace[OF not_committed(1)] not_committed(7) show ?thesis by auto
  qed
  then show ?thesis by (auto simp: new_events_def)
qed

lemma new_events_trans:
  assumes "trace w1 = trace w @ new_events w w1" "trace w2 = trace w1 @ new_events w1 w2"
  shows "new_events w w2 = new_events w w1 @ new_events w1 w2"
    and "trace w2 = trace w @ new_events w w2"
proof -
  from assms have "trace w2 = trace w @ (new_events w w1 @ new_events w1 w2)" by simp
  then show "new_events w w2 = new_events w w1 @ new_events w1 w2"
    by (rule new_events_append)
  with assms show "trace w2 = trace w @ new_events w w2" by simp
qed

lemma new_events_same [simp]: "new_events w w = []"
  by (simp add: new_events_def)

text \<open>A failing request of one transaction.\<close>

lemma runTransaction_request_failure:
  assumes run: "runTransaction m ex t w = (p, w')"
    and sound: "sound_executor t ex"
    and q: "EvRequest q \<in> set (new_events w w')" "request_error t q = Some err"
  shows "(\<exists>pre. new_events w w' = pre @ [EvRequest q, EvAbortCall, EvReject err]) \<and> p = Rejected err"
  using run sound
proof (cases rule: runTransaction_events)
  case (ev_unopened ini e)
  with q(1) open_event_not_request[of ini q] show ?thesis by simp
next
  case (ev_failed ini rs q' e)
  from q(1) ev_failed(1) open_event_not_request[OF ev_failed(2), of q]
  have "q \<in> set rs \<or> q = q'" by auto
  moreover from ev_failed(3) q(2) have "q \<notin> set rs" by (auto simp: list_all_iff)
  ultimately have "q = q'" by simp
  with ev_failed q(2) show ?thesis by auto
next
  case (ev_completed ini rs v)
  from q(1) ev_completed(1) open_event_not_request[OF ev_completed(2), of q]
  have "q \<in> set rs" by auto
  with ev_completed(3) q(2) show ?thesis by (auto simp: list_all_iff)
next
  case (ev_not_committed ini rs ev e)
  from q(1) ev_not_committed(1,4) open_event_not_request[OF ev_not_committed(2), of q]
  have "q \<in> set rs" by auto
  with ev_not_committed(3) q(2) show ?thesis by (auto simp: list_all_iff)
qed

text \<open>One transaction at most, completed before the promise is fulfilled.\<close>

lemma runTransaction_single:
  assumes run: "runTransaction m ex t w = (p, w')"
    and sound: "sound_executor t ex"
  shows "tx_begins (new_events w w') \<le> 1
    \<and> (fulfilled p \<longrightarrow>
         (\<exists>ini rs. list_all is_open_event ini
            \<and> new_events w w' = ini @ EvTxBegin STORE_NAME m # map EvRequest rs @ [EvTxComplete, EvResolve]))"
  using run sound
proof (cases rule: runTransaction_events)
  case (ev_unopened ini e)
  then show ?thesis by (simp add: tx_begins_def open_event_not_tx_begin)
next
  case (ev_failed ini rs q' e)
  then show ?thesis by (simp add: tx_begins_def open_event_not_tx_begin request_not_tx_begin)
next
  case (ev_completed ini rs v)
  then show ?thesis by (auto simp add: tx_begins_def open_event_not_tx_begin request_not_tx_begin)
next
  case (ev_not_committed ini rs ev e)
  then show ?thesis by (auto simp add: tx_begins_def open_event_not_tx_begin request_not_tx_begin)
qed

lemma getAsset_grows:
  "getAsset t k w = (p, w') \<Longrightarrow> trace w' = trace w @ new_events w w'"
  by (simp add: getAsset_def runTransaction_grows)

lemma getAsset_request_failure:
  assumes "getAsset t k w = (p, w')" "EvRequest q \<in> set (new_events w w')"
    "request_error t q = Some err"
  shows "(\<exists>pre. new_events w w' = pre @ [EvRequest q, EvAbortCall, EvReject err]) \<and> p = Rejected err"
  using assms runTransaction_request_failure[OF _ getAsset_executor_sound]
  by (simp add: getAsset_def)

lemma getAsset_tx_begins:
  "getAsset t k w = (p, w') \<Longrightarrow> tx_begins (new_events w w') \<le> 1"
  using runTransaction_single[OF _ getAsset_executor_sound] by (simp add: getAsset_def)

lemma tx_begins_append: "tx_begins (a @ b) = tx_begins a + tx_begins b"
  by (simp add: tx_begins_def)

text \<open>The wrappers settle with the transaction of the operation they wrap.\<close>

lemma getAssetDataUrl_via:
  assumes "getAssetDataUrl e t k w = (p, w')"
  shows "\<exists>p0. getAsset t k w = (p0, w') \<and> (\<forall>err. p0 = Rejected err \<longrightarrow> p = Rejected err)
            \<and> (fulfilled p \<longrightarrow> fulfilled p0)"
  using assms
  by (auto simp: getAssetDataUrl_def split: prod.splits promise.splits option.splits)

lemma getAssetObjectUrl_via:
  assumes "getAssetObjectUrl e t k w = (p, w')"
  shows "\<exists>p0. getAsset t k w = (p0, w') \<and> (\<forall>err. p0 = Rejected err \<longrightarrow> p = Rejected err)
            \<and> (fulfilled p \<longrightarrow> fulfilled p0)"
  using assms
  by (auto simp: getAssetObjectUrl_def split: prod.splits promise.splits option.splits)

lemma saveAssetFromDataUrl_via:
  assumes "saveAssetFromDataUrl e t u opts w = (p, w')"
  shows "(w' = w \<and> (\<exists>err. p = Rejected err)) \<or> (\<exists>b opts'. saveAsset e t b opts' w = (p, w'))"
  using assms
  by (auto simp: saveAssetFromDataUrl_def split: sum.splits)

lemma apfst_map_promise:
  assumes "apfst (map_promise f) r = (p, w')"
  shows "\<exists>p0. r = (p0, w') \<and> p = map_promise f p0 \<and> (\<forall>err. p0 = Rejected err \<longrightarrow> p = Rejected err)
            \<and> (fulfilled p \<longrightarrow> fulfilled p0)"
proof -
  obtain p0 w0 where r: "r = (p0, w0)" by (cases r)
  with assms show ?thesis by (cases p0) auto
qed

lemma single_failure:
  assumes "runTransaction m ex t w = (p0, w')" "sound_executor t ex"
    "EvRequest q \<in> set (new_events w w')" "request_error t q = Some err"
    "\<forall>err. p0 = Rejected err \<longrightarrow> p = Rejected err"
  shows "(\<exists>pre post. new_events w w' = pre @ [EvRequest q, EvAbortCall, EvReject err] @ post)
       \<and> p = Rejected err"
proof -
  from runTransaction_request_failure[OF assms(1-4)] obtain pre where
    "new_events w w' = pre @ [EvRequest q, EvAbortCall, EvReject err] @ []" "p0 = Rejected err"
    by auto
  with assms(5) show ?thesis by blast
qed

lemma single_shape:
  assumes "runTransaction m ex t w = (p0, w')" "sound_executor t ex"
    "fulfilled p \<longrightarrow> fulfilled p0"
  shows "tx_begins (new_events w w') \<le> 1
    \<and> (fulfilled p \<longrightarrow>
         (\<exists>ini. list_all is_open_event ini
            \<and> (\<exists>m rs. new_events w w' = ini @ EvTxBegin STORE_NAME m # map EvRequest rs @ [EvTxComplete, EvResolve])))"
  using runTransaction_single[OF assms(1,2)] assms(3) by blast

lemmas run_defs = getAsset_def getAssetsByIds_def runTransaction_def openDatabase_def
  getAsset_executor_def idb_get_def place_def log_def new_events_def stored_world_def
  failing_tenv_def sample_tenv_def STORE_NAME_def Let_def tx_begins_def


lemma get_settles_not_begin: "filter is_tx_begin (snd (get_settles t store k)) = []"
  by (simp add: get_settles_def split: option.splits tx_fate.splits)


lemma settles_not_begin:
  "filter is_tx_begin (concat (map (\<lambda>k. snd (get_settles t store k)) ks)) = []"
  by (induction ks) (simp_all add: get_settles_not_begin)

text \<open>The calls of \<open>getAssetsByIds\<close>: the shape of what they log.\<close>

lemma getAssetsByIds_events:
  assumes run: "getAssetsByIds t ids w = (p, w')"
  obtains (many_none) "ids = []" "w' = w" "p = Fulfilled (map_of [])"
  | (many_unopened) ini e where "ids \<noteq> []" "new_events w w' = ini" "list_all is_open_event ini"
      "p = Rejected e"
  | (many_started) ini w1 where "ids \<noteq> []" "list_all is_open_event ini"
      "openDatabase w = (Fulfilled (), w1)" "STORE_NAME \<in> set (objectStoreNames w1)"
      "new_events w w' = ini @ map (\<lambda>k. EvTxBegin STORE_NAME ReadOnly) ids
          @ map (\<lambda>k. EvRequest (Get k)) ids
          @ concat (map (\<lambda>k. snd (get_settles t (assets w1) k)) (settle_order t ids))"
      "p = map_promise (\<lambda>entries. map_of (rev entries))
             (promise_all (map (get_entry t (assets w1)) (settle_order t ids))
                (map (get_entry t (assets w1)) ids))"
      "assets w' = assets w1"
proof (cases "ids = []")
  case True
  with run show ?thesis by (intro many_none) (simp_all add: getAssetsByIds_def)
next
  case False
  obtain p1 w1 where o: "openDatabase w = (p1, w1)" by (cases "openDatabase w")
  from openDatabase_trace[OF o] obtain es where
    es: "trace w1 = trace w @ es" "list_all is_open_event es" by blast
  show ?thesis
  proof (cases p1)
    case (Rejected e)
    with run False o es show ?thesis
      by (intro many_unopened[of es e]) (simp_all add: getAssetsByIds_def new_events_append)
  next
    case (Fulfilled u)
    show ?thesis
    proof (cases "STORE_NAME \<in> set (objectStoreNames w1)")
      case no: False
      with run False o es Fulfilled show ?thesis
        by (intro many_unopened[of es "DOMException ''NotFoundError''"])
           (simp_all add: getAssetsByIds_def new_events_append)
    next
      case yes: True
      with run False o es Fulfilled show ?thesis
        by (intro many_started[of es w1])
           (auto simp: getAssetsByIds_def new_events_append log_def Let_def)
    qed
  qed
qed

lemma first_rejection_None: "first_rejection ps = None \<Longrightarrow> list_all fulfilled ps"
  by (induction ps rule: first_rejection.induct) simp_all



lemma get_entry_fulfilled:
  "fulfilled (get_entry t store k) \<Longrightarrow> request_error t (Get k) = None \<and> commit t = Completes"
  by (auto simp: get_entry_def get_settles_def split: option.splits tx_fate.splits)

lemma get_settles_completes:
  "request_error t (Get k) = None \<Longrightarrow> commit t = Completes
     \<Longrightarrow> snd (get_settles t store k) = [EvTxComplete, EvResolve]"
  by (simp add: get_settles_def)

lemma set_settle_order: "set (settle_order t ids) = set ids"
  by (auto simp: settle_order_def)

lemma settle_order_no_failure:
  "list_all (\<lambda>k. request_error t (Get k) = None) ids \<Longrightarrow> settle_order t ids = ids"
  by (simp add: settle_order_def get_fails_def list_all_iff filter_empty_conv filter_id_conv)


text \<open>One transaction per id, each completed before the promise is fulfilled.\<close>

lemma getAssetsByIds_shape:
  assumes run: "getAssetsByIds t ids w = (p, w')"
  shows "tx_begins (new_events w w') \<le> length ids
    \<and> (fulfilled p \<longrightarrow>
         (\<exists>ini. list_all is_open_event ini
            \<and> new_events w w' = ini @ map (\<lambda>k. EvTxBegin STORE_NAME ReadOnly) ids
                @ map (\<lambda>k. EvRequest (Get k)) ids
                @ concat (map (\<lambda>k. [EvTxComplete, EvResolve]) ids)))"
  using run
proof (cases rule: getAssetsByIds_events)
  case many_none
  then show ?thesis by (simp add: tx_begins_def)
next
  case (many_unopened ini e)
  then show ?thesis by (simp add: tx_begins_def open_event_not_tx_begin)
next
  case (many_started ini w1)
  let ?store = "assets w1"
  have begins: "tx_begins (new_events w w') \<le> length ids"
    by (simp add: many_started(5) tx_begins_def open_event_not_tx_begin[OF many_started(2)]
        settles_not_begin filter_map o_def)
  have shape: "new_events w w' = ini @ map (\<lambda>k. EvTxBegin STORE_NAME ReadOnly) ids
                @ map (\<lambda>k. EvRequest (Get k)) ids
                @ concat (map (\<lambda>k. [EvTxComplete, EvResolve]) ids)" if "fulfilled p"
  proof -
    from that many_started(6) have
      "first_rejection (map (get_entry t ?store) (settle_order t ids)) = None"
      by (auto simp: promise_all_def split: option.splits)
    from first_rejection_None[OF this] have "\<forall>k\<in>set ids. fulfilled (get_entry t ?store k)"
      by (simp add: list_all_iff set_settle_order)
    then have ok: "\<forall>k\<in>set ids. request_error t (Get k) = None \<and> commit t = Completes"
      using get_entry_fulfilled by blast
    then have so: "settle_order t ids = ids"
      by (intro settle_order_no_failure) (simp add: list_all_iff)
    have "map (\<lambda>k. snd (get_settles t ?store k)) ids = map (\<lambda>k. [EvTxComplete, EvResolve]) ids"
      using ok by (intro map_cong) (simp_all add: get_settles_completes)
    with so many_started(5) show ?thesis by simp
  qed
  from begins shape many_started(2) show ?thesis by blast
qed

text \<open>With one id, \<open>getAssetsByIds\<close> does what \<open>getAsset\<close> does.\<close>

lemma getAssetsByIds_one:
  "getAssetsByIds t [k] w = apfst (map_promise (\<lambda>v. map_of [(k, v)])) (getAsset t k w)"
  by (auto simp: getAssetsByIds_def getAsset_def runTransaction_def getAsset_executor_def
      idb_get_def place_def settle_order_def get_fails_def get_settles_def get_entry_def
      promise_all_def log_def Let_def
      split: prod.splits promise.splits option.splits tx_fate.splits)



lemmas many_defs = getAssetsByIds_def settle_order_def get_fails_def get_settles_def
  get_entry_def promise_all_def tx_error_or_def


text \<open>A fulfilled write is in the store.\<close>

lemma saveAsset_committed:
  assumes "saveAsset e t f opts w = (Fulfilled m, w')"
  shows "\<exists>r. map_of (assets w') (asset_id m) = Some r \<and> StoredAssetMetadata.truncate r = m
            \<and> blob r = f"
proof -
  define ident where "ident = (case opt_id opts of Some i \<Rightarrow> i | None \<Rightarrow> generateId e)"
  let ?ex = "saveAsset_executor ident (clock e) f opts"
  from assms have run: "runTransaction ReadWrite ?ex t w = (Fulfilled m, w')"
    by (simp add: saveAsset_def ident_def)
  from run show ?thesis
  proof (cases rule: runTransaction_elim)
    case (completed w1 s v)
    then have v: "v = m" by simp
    from saveAsset_executor_Inr[OF completed(3)] v obtain r where
      r: "m = StoredAssetMetadata.truncate r" "blob r = f" "asset_id r = ident"
         "content s = AList.update ident r (assets w1)"
      by auto
    have "map_of (assets w') (asset_id m) = Some r"
      using completed(7) r(1,3,4) by (simp add: update_conv' truncate_fields)
    with r(1,2) show ?thesis by blast
  qed simp_all
qed

lemma saveAssetFromDataUrl_committed:
  assumes "saveAssetFromDataUrl e t u opts w = (Fulfilled m, w')"
  shows "\<exists>r. map_of (assets w') (asset_id m) = Some r \<and> StoredAssetMetadata.truncate r = m
            \<and> dataUrlToBlob u = Inr (blob r)"
proof (cases "dataUrlToBlob u")
  case (Inl err)
  with assms show ?thesis by (simp add: saveAssetFromDataUrl_def)
next
  case (Inr b)
  with assms obtain opts' where "saveAsset e t b opts' w = (Fulfilled m, w')"
    by (auto simp: saveAssetFromDataUrl_def)
  from saveAsset_committed[OF this] Inr show ?thesis by auto
qed

lemma deleteAsset_committed:
  assumes "deleteAsset t k w = (Fulfilled u, w')"
  shows "map_of (assets w') k = None"
proof -
  from assms have run: "runTransaction ReadWrite (deleteAsset_executor k) t w = (Fulfilled u, w')"
    by (simp add: deleteAsset_def)
  from run show ?thesis
  proof (cases rule: runTransaction_elim)
    case (completed w1 s v)
    from completed(3) have "content s = AList.delete k (assets w1)"
      by (auto simp: deleteAsset_executor_def idb_delete_def place_def split: option.splits)
    with completed(7) show ?thesis by (simp add: delete_conv')
  qed simp_all
qed

lemma clearAllAssets_committed:
  assumes "clearAllAssets t w = (Fulfilled u, w')"
  shows "assets w' = []"
proof -
  from assms have run: "runTransaction ReadWrite clearAllAssets_executor t w = (Fulfilled u, w')"
    by (simp add: clearAllAssets_def)
  from run show ?thesis
  proof (cases rule: runTransaction_elim)
    case (completed w1 s v)
    from completed(3) have "content s = []"
      by (auto simp: clearAllAssets_executor_def idb_clear_def place_def split: option.splits)
    with completed(7) show ?thesis by simp
  qed simp_all
qed

lemma map_promise_fulfilled:
  assumes "p = map_promise f p0" "fulfilled p"
  shows "\<exists>v. p0 = Fulfilled v \<and> p = Fulfilled (f v)"
  using assms by (cases p0) auto

lemma perform_committed:
  assumes "perform e t op w = (p, w')" "fulfilled p"
  shows "(\<forall>f opts. op = SaveAsset f opts \<longrightarrow>
            (\<exists>m r. p = Fulfilled (RMetadata m) \<and> map_of (assets w') (asset_id m) = Some r
                \<and> StoredAssetMetadata.truncate r = m \<and> blob r = f))
       \<and> (\<forall>u opts. op = SaveAssetFromDataUrl u opts \<longrightarrow>
            (\<exists>m r. p = Fulfilled (RMetadata m) \<and> map_of (assets w') (asset_id m) = Some r
                \<and> StoredAssetMetadata.truncate r = m \<and> dataUrlToBlob u = Inr (blob r)))
       \<and> (\<forall>k. op = DeleteAsset k \<longrightarrow> map_of (assets w') k = None)
       \<and> (op = ClearAllAssets \<longrightarrow> assets w' = [])"
proof (cases op)
  case (SaveAsset f opts)
  with assms(1) have "apfst (map_promise RMetadata) (saveAsset e t f opts w) = (p, w')" by simp
  from apfst_map_promise[OF this] obtain p0 where
    p0: "saveAsset e t f opts w = (p0, w')" "p = map_promise RMetadata p0" by blast
  from map_promise_fulfilled[OF p0(2) assms(2)] obtain m where
    m: "p0 = Fulfilled m" "p = Fulfilled (RMetadata m)" by blast
  from saveAsset_committed[OF p0(1)[unfolded m(1)]] m(2) SaveAsset show ?thesis by auto
next
  case (SaveAssetFromDataUrl u opts)
  with assms(1) have "apfst (map_promise RMetadata) (saveAssetFromDataUrl e t u opts w) = (p, w')"
    by simp
  from apfst_map_promise[OF this] obtain p0 where
    p0: "saveAssetFromDataUrl e t u opts w = (p0, w')" "p = map_promise RMetadata p0" by blast
  from map_promise_fulfilled[OF p0(2) assms(2)] obtain m where
    m: "p0 = Fulfilled m" "p = Fulfilled (RMetadata m)" by blast
  from saveAssetFromDataUrl_committed[OF p0(1)[unfolded m(1)]] m(2) SaveAssetFromDataUrl
  show ?thesis by auto
next
  case (DeleteAsset k)
  with assms(1) have "apfst (map_promise (\<lambda>u. RUnit)) (deleteAsset t k w) = (p, w')" by simp
  from apfst_map_promise[OF this] obtain p0 where
    p0: "deleteAsset t k w = (p0, w')" "p = map_promise (\<lambda>u. RUnit) p0" by blast
  from map_promise_fulfilled[OF p0(2) assms(2)] obtain u where u: "p0 = Fulfilled u" by blast
  from deleteAsset_committed[OF p0(1)[unfolded u]] DeleteAsset show ?thesis by simp
next
  case ClearAllAssets
  with assms(1) have "apfst (map_promise (\<lambda>u. RUnit)) (clearAllAssets t w) = (p, w')" by simp
  from apfst_map_promise[OF this] obtain p0 where
    p0: "clearAllAssets t w = (p0, w')" "p = map_promise (\<lambda>u. RUnit) p0" by blast
  from map_promise_fulfilled[OF p0(2) assms(2)] obtain u where u: "p0 = Fulfilled u" by blast
  from clearAllAssets_committed[OF p0(1)[unfolded u]] ClearAllAssets show ?thesis by simp
qed simp_all

lemma single_shape_thesis:
  assumes "runTransaction m ex t w = (p0, w')" "sound_executor t ex"
    "fulfilled p \<longrightarrow> fulfilled p0" "\<not> is_many op" "tx_budget op = 1"
  shows "tx_begins (new_events w w') \<le> tx_budget op
    \<and> (fulfilled p \<longrightarrow>
         (\<exists>ini. list_all is_open_event ini
            \<and> (\<forall>ids. op = GetAssetsByIds ids \<longrightarrow>
                  new_events w w' = ini @ map (\<lambda>k. EvTxBegin STORE_NAME ReadOnly) ids
                    @ map (\<lambda>k. EvRequest (Get k)) ids
                    @ concat (map (\<lambda>k. [EvTxComplete, EvResolve]) ids))
            \<and> (\<not> is_many op \<longrightarrow>
                  (\<exists>m rs. new_events w w'
                      = ini @ EvTxBegin STORE_NAME m # map EvRequest rs @ [EvTxComplete, EvResolve]))))"
proof -
  from assms(4) have nomany: "\<forall>ids. op \<noteq> GetAssetsByIds ids" by (cases op) simp_all
  note sh = single_shape[OF assms(1-3)]
  from sh assms(5) have budget: "tx_begins (new_events w w') \<le> tx_budget op" by simp
  have "\<exists>ini. list_all is_open_event ini
            \<and> (\<forall>ids. op = GetAssetsByIds ids \<longrightarrow>
                  new_events w w' = ini @ map (\<lambda>k. EvTxBegin STORE_NAME ReadOnly) ids
                    @ map (\<lambda>k. EvRequest (Get k)) ids
                    @ concat (map (\<lambda>k. [EvTxComplete, EvResolve]) ids))
            \<and> (\<not> is_many op \<longrightarrow>
                  (\<exists>m rs. new_events w w'
                      = ini @ EvTxBegin STORE_NAME m # map EvRequest rs @ [EvTxComplete, EvResolve]))"
    if "fulfilled p"
  proof -
    from sh that obtain ini where ini: "list_all is_open_event ini"
      "\<exists>m rs. new_events w w' = ini @ EvTxBegin STORE_NAME m # map EvRequest rs @ [EvTxComplete, EvResolve]"
      by blast
    with nomany show ?thesis by (intro exI[of _ ini]) simp
  qed
  with budget show ?thesis by blast
qed

lemma perform_shape:
  assumes "perform e t op w = (p, w')"
  shows "tx_begins (new_events w w') \<le> tx_budget op
    \<and> (fulfilled p \<longrightarrow>
         (\<exists>ini. list_all is_open_event ini
            \<and> (\<forall>ids. op = GetAssetsByIds ids \<longrightarrow>
                  new_events w w' = ini @ map (\<lambda>k. EvTxBegin STORE_NAME ReadOnly) ids
                    @ map (\<lambda>k. EvRequest (Get k)) ids
                    @ concat (map (\<lambda>k. [EvTxComplete, EvResolve]) ids))
            \<and> (\<not> is_many op \<longrightarrow>
                  (\<exists>m rs. new_events w w'
                      = ini @ EvTxBegin STORE_NAME m # map EvRequest rs @ [EvTxComplete, EvResolve]))))"
proof (cases op)
  case (SaveAsset f opts)
  with assms(1) have "apfst (map_promise RMetadata) (saveAsset e t f opts w) = (p, w')" by simp
  from apfst_map_promise[OF this] obtain p0 where
    "saveAsset e t f opts w = (p0, w')" "fulfilled p \<longrightarrow> fulfilled p0"
    by blast
  with SaveAsset show ?thesis
    by (intro single_shape_thesis[OF _ saveAsset_executor_sound]) (simp_all add: saveAsset_def)
next
  case (SaveAssetFromDataUrl u opts)
  with assms(1) have "apfst (map_promise RMetadata) (saveAssetFromDataUrl e t u opts w) = (p, w')" by simp
  from apfst_map_promise[OF this] obtain p0 where
    p0: "saveAssetFromDataUrl e t u opts w = (p0, w')" "fulfilled p \<longrightarrow> fulfilled p0"
    by blast
  from saveAssetFromDataUrl_via[OF p0(1)]
  have "(w' = w \<and> (\<exists>err. p0 = Rejected err)) \<or> (\<exists>b opts'. saveAsset e t b opts' w = (p0, w'))" .
  then show ?thesis
  proof
    assume a: "w' = w \<and> (\<exists>err. p0 = Rejected err)"
    with p0(2) have "\<not> fulfilled p" by auto
    with a SaveAssetFromDataUrl show ?thesis by (simp add: tx_begins_def)
  next
    assume "\<exists>b opts'. saveAsset e t b opts' w = (p0, w')"
    then obtain b opts' where "saveAsset e t b opts' w = (p0, w')" by blast
    with SaveAssetFromDataUrl p0(2) show ?thesis
      by (intro single_shape_thesis[OF _ saveAsset_executor_sound]) (simp_all add: saveAsset_def)
  qed
next
  case (GetAsset k)
  with assms(1) have "apfst (map_promise RRecord) (getAsset t k w) = (p, w')" by simp
  from apfst_map_promise[OF this] obtain p0 where
    "getAsset t k w = (p0, w')" "fulfilled p \<longrightarrow> fulfilled p0"
    by blast
  with GetAsset show ?thesis
    by (intro single_shape_thesis[OF _ getAsset_executor_sound]) (simp_all add: getAsset_def)
next
  case (GetAssetDataUrl k)
  with assms(1) have "apfst (map_promise RDataUrl) (getAssetDataUrl e t k w) = (p, w')" by simp
  from apfst_map_promise[OF this] obtain p1 where
    p1: "getAssetDataUrl e t k w = (p1, w')" "fulfilled p \<longrightarrow> fulfilled p1"
    by blast
  from getAssetDataUrl_via[OF p1(1)] obtain p0 where
    g: "getAsset t k w = (p0, w')" and "fulfilled p1 \<longrightarrow> fulfilled p0"
    by blast
  with p1(2) have "fulfilled p \<longrightarrow> fulfilled p0" by simp
  with g GetAssetDataUrl show ?thesis
    by (intro single_shape_thesis[OF _ getAsset_executor_sound]) (simp_all add: getAsset_def)
next
  case (GetAssetObjectUrl k)
  with assms(1) have "apfst (map_promise RObjectUrl) (getAssetObjectUrl e t k w) = (p, w')" by simp
  from apfst_map_promise[OF this] obtain p1 where
    p1: "getAssetObjectUrl e t k w = (p1, w')" "fulfilled p \<longrightarrow> fulfilled p1"
    by blast
  from getAssetObjectUrl_via[OF p1(1)] obtain p0 where
    g: "getAsset t k w = (p0, w')" and "fulfilled p1 \<longrightarrow> fulfilled p0"
    by blast
  with p1(2) have "fulfilled p \<longrightarrow> fulfilled p0" by simp
  with g GetAssetObjectUrl show ?thesis
    by (intro single_shape_thesis[OF _ getAsset_executor_sound]) (simp_all add: getAsset_def)
next
  case (DeleteAsset k)
  with assms(1) have "apfst (map_promise (\<lambda>u. RUnit)) (deleteAsset t k w) = (p, w')" by simp
  from apfst_map_promise[OF this] obtain p0 where
    "deleteAsset t k w = (p0, w')" "fulfilled p \<longrightarrow> fulfilled p0"
    by blast
  with DeleteAsset show ?thesis
    by (intro single_shape_thesis[OF _ deleteAsset_executor_sound]) (simp_all add: deleteAsset_def)
next
  case ListAllAssets
  with assms(1) have "apfst (map_promise RList) (listAllAssets t w) = (p, w')" by simp
  from apfst_map_promise[OF this] obtain p0 where
    "listAllAssets t w = (p0, w')" "fulfilled p \<longrightarrow> fulfilled p0"
    by blast
  with ListAllAssets show ?thesis
    by (intro single_shape_thesis[OF _ listAllAssets_executor_sound]) (simp_all add: listAllAssets_def)
next
  case (GetAssetsByIds ids)
  with assms(1) have "apfst (map_promise RMany) (getAssetsByIds t ids w) = (p, w')" by simp
  from apfst_map_promise[OF this] obtain p0 where
    p0: "getAssetsByIds t ids w = (p0, w')" "fulfilled p \<longrightarrow> fulfilled p0"
    by blast
  note sh = getAssetsByIds_shape[OF p0(1)]
  from sh have budget: "tx_begins (new_events w w') \<le> tx_budget op"
    using GetAssetsByIds by simp
  have "\<exists>ini. list_all is_open_event ini
            \<and> (\<forall>ids. op = GetAssetsByIds ids \<longrightarrow>
                  new_events w w' = ini @ map (\<lambda>k. EvTxBegin STORE_NAME ReadOnly) ids
                    @ map (\<lambda>k. EvRequest (Get k)) ids
                    @ concat (map (\<lambda>k. [EvTxComplete, EvResolve]) ids))
            \<and> (\<not> is_many op \<longrightarrow>
                  (\<exists>m rs. new_events w w'
                      = ini @ EvTxBegin STORE_NAME m # map EvRequest rs @ [EvTxComplete, EvResolve]))"
    if "fulfilled p"
  proof -
    from sh that p0(2) obtain ini where "list_all is_open_event ini"
      "new_events w w' = ini @ map (\<lambda>k. EvTxBegin STORE_NAME ReadOnly) ids
                    @ map (\<lambda>k. EvRequest (Get k)) ids
                    @ concat (map (\<lambda>k. [EvTxComplete, EvResolve]) ids)" by blast
    with GetAssetsByIds show ?thesis by (intro exI[of _ ini]) simp
  qed
  with budget show ?thesis by blast
next
  case ClearAllAssets
  with assms(1) have "apfst (map_promise (\<lambda>u. RUnit)) (clearAllAssets t w) = (p, w')" by simp
  from apfst_map_promise[OF this] obtain p0 where
    "clearAllAssets t w = (p0, w')" "fulfilled p \<longrightarrow> fulfilled p0"
    by blast
  with ClearAllAssets show ?thesis
    by (intro single_shape_thesis[OF _ clearAllAssets_executor_sound]) (simp_all add: clearAllAssets_def)
qed

lemma open_event_not_begin: "list_all is_open_event es \<Longrightarrow> EvTxBegin n m \<notin> set es"
  by (induction es) auto

text \<open>Every transaction is on the store \<open>assets\<close>.\<close>

lemma runTransaction_scope:
  assumes "runTransaction m ex t w = (p, w')"
  shows "\<forall>n m'. EvTxBegin n m' \<in> set (new_events w w') \<longrightarrow> n = STORE_NAME"
  using assms
proof (cases rule: runTransaction_elim)
  case (no_db e)
  from openDatabase_trace[OF no_db(1)] obtain es where
    "trace w' = trace w @ es" "list_all is_open_event es" by blast
  then show ?thesis by (simp add: new_events_append open_event_not_begin)
next
  case (no_store w1)
  from openDatabase_trace[OF no_store(1)] no_store(4) obtain es where
    "trace w' = trace w @ es" "list_all is_open_event es" by blast
  then show ?thesis by (simp add: new_events_append open_event_not_begin)
next
  case (request_failed w1 s e)
  from openDatabase_trace[OF request_failed(1)] obtain es where
    es: "trace w1 = trace w @ es" "list_all is_open_event es" by blast
  with request_failed(5) have "new_events w w'
      = es @ EvTxBegin STORE_NAME m # map EvRequest (reqs s) @ [EvAbortCall, EvReject e]"
    by (simp add: new_events_append)
  with es(2) show ?thesis by (auto simp: open_event_not_begin)
next
  case (completed w1 s v)
  from openDatabase_trace[OF completed(1)] obtain es where
    es: "trace w1 = trace w @ es" "list_all is_open_event es" by blast
  with completed(6) have "new_events w w'
      = es @ EvTxBegin STORE_NAME m # map EvRequest (reqs s) @ [EvTxComplete, EvResolve]"
    by (simp add: new_events_append)
  with es(2) show ?thesis by (auto simp: open_event_not_begin)
next
  case (not_committed w1 s v e ev)
  from openDatabase_trace[OF not_committed(1)] obtain es where
    es: "trace w1 = trace w @ es" "list_all is_open_event es" by blast
  with not_committed(7) have "new_events w w'
      = es @ EvTxBegin STORE_NAME m # map EvRequest (reqs s) @ [ev, EvReject e]"
    by (simp add: new_events_append)
  with es(2) not_committed(6) show ?thesis by (auto simp: open_event_not_begin)
qed

lemma get_settles_no_begin: "EvTxBegin n m \<notin> set (snd (get_settles t store k))"
  by (simp add: get_settles_def split: option.splits tx_fate.splits)

lemma getAssetsByIds_scope:
  assumes "getAssetsByIds t ids w = (p, w')"
  shows "\<forall>n m'. EvTxBegin n m' \<in> set (new_events w w') \<longrightarrow> n = STORE_NAME"
  using assms
proof (cases rule: getAssetsByIds_events)
  case many_none
  then show ?thesis by simp
next
  case (many_unopened ini e)
  then show ?thesis by (simp add: open_event_not_begin)
next
  case (many_started ini w1)
  then show ?thesis by (auto simp: open_event_not_begin get_settles_no_begin)
qed

lemma perform_scope:
  assumes "perform e t op w = (p, w')"
  shows "\<forall>n m. EvTxBegin n m \<in> set (new_events w w') \<longrightarrow> n = STORE_NAME"
proof (cases op)
  case (SaveAsset f opts)
  with assms(1) have "apfst (map_promise RMetadata) (saveAsset e t f opts w) = (p, w')" by simp
  from apfst_map_promise[OF this] obtain p0 where "saveAsset e t f opts w = (p0, w')" by blast
  then show ?thesis by (intro runTransaction_scope) (simp add: saveAsset_def)
next
  case (SaveAssetFromDataUrl u opts)
  with assms(1) have "apfst (map_promise RMetadata) (saveAssetFromDataUrl e t u opts w) = (p, w')"
    by simp
  from apfst_map_promise[OF this] obtain p0 where
    p0: "saveAssetFromDataUrl e t u opts w = (p0, w')" by blast
  from saveAssetFromDataUrl_via[OF p0]
  have "(w' = w \<and> (\<exists>err. p0 = Rejected err)) \<or> (\<exists>b opts'. saveAsset e t b opts' w = (p0, w'))" .
  then show ?thesis
  proof
    assume "w' = w \<and> (\<exists>err. p0 = Rejected err)"
    then show ?thesis by simp
  next
    assume "\<exists>b opts'. saveAsset e t b opts' w = (p0, w')"
    then obtain b opts' where "saveAsset e t b opts' w = (p0, w')" by blast
    then show ?thesis by (intro runTransaction_scope) (simp add: saveAsset_def)
  qed
next
  case (GetAsset k)
  with assms(1) have "apfst (map_promise RRecord) (getAsset t k w) = (p, w')" by simp
  from apfst_map_promise[OF this] obtain p0 where "getAsset t k w = (p0, w')" by blast
  then show ?thesis by (intro runTransaction_scope) (simp add: getAsset_def)
next
  case (GetAssetDataUrl k)
  with assms(1) have "apfst (map_promise RDataUrl) (getAssetDataUrl e t k w) = (p, w')" by simp
  from apfst_map_promise[OF this] obtain p1 where "getAssetDataUrl e t k w = (p1, w')" by blast
  from getAssetDataUrl_via[OF this] obtain p0 where "getAsset t k w = (p0, w')" by blast
  then show ?thesis by (intro runTransaction_scope) (simp add: getAsset_def)
next
  case (GetAssetObjectUrl k)
  with assms(1) have "apfst (map_promise RObjectUrl) (getAssetObjectUrl e t k w) = (p, w')" by simp
  from apfst_map_promise[OF this] obtain p1 where "getAssetObjectUrl e t k w = (p1, w')" by blast
  from getAssetObjectUrl_via[OF this] obtain p0 where "getAsset t k w = (p0, w')" by blast
  then show ?thesis by (intro runTransaction_scope) (simp add: getAsset_def)
next
  case (DeleteAsset k)
  with assms(1) have "apfst (map_promise (\<lambda>u. RUnit)) (deleteAsset t k w) = (p, w')" by simp
  from apfst_map_promise[OF this] obtain p0 where "deleteAsset t k w = (p0, w')" by blast
  then show ?thesis by (intro runTransaction_scope) (simp add: deleteAsset_def)
next
  case ListAllAssets
  with assms(1) have "apfst (map_promise RList) (listAllAssets t w) = (p, w')" by simp
  from apfst_map_promise[OF this] obtain p0 where "listAllAssets t w = (p0, w')" by blast
  then show ?thesis by (intro runTransaction_scope) (simp add: listAllAssets_def)
next
  case (GetAssetsByIds ids)
  with assms(1) have "apfst (map_promise RMany) (getAssetsByIds t ids w) = (p, w')" by simp
  from apfst_map_promise[OF this] obtain p0 where "getAssetsByIds t ids w = (p0, w')" by blast
  then show ?thesis by (rule getAssetsByIds_scope)
next
  case ClearAllAssets
  with assms(1) have "apfst (map_promise (\<lambda>u. RUnit)) (clearAllAssets t w) = (p, w')" by simp
  from apfst_map_promise[OF this] obtain p0 where "clearAllAssets t w = (p0, w')" by blast
  then show ?thesis by (intro runTransaction_scope) (simp add: clearAllAssets_def)
qed

text \<open>
  C4 (amended): every operation but \<open>getAssetsByIds\<close> starts at most one transaction,
  and every transaction an operation starts is on the store \<open>assets\<close>.  When the
  promise of such an operation is fulfilled the log of the call is the opening of the
  database, the start of that one transaction, its requests, its completion and only
  then the resolution; the write of a fulfilled save, delete or clear is then in the
  store.  \<open>getAssetsByIds\<close> starts at most one transaction per id, and when it is
  fulfilled it has begun one read-only transaction per id, placed one request in each,
  and seen each of them complete before it is resolved.
\<close>

theorem one_transaction_per_operation:
  assumes "perform e t op w = (p, w')"
  shows "tx_begins (new_events w w') \<le> tx_budget op
    \<and> (\<forall>n m. EvTxBegin n m \<in> set (new_events w w') \<longrightarrow> n = STORE_NAME)
    \<and> (fulfilled p \<longrightarrow>
         (\<exists>ini. list_all is_open_event ini
            \<and> (\<forall>ids. op = GetAssetsByIds ids \<longrightarrow>
                  new_events w w' = ini @ map (\<lambda>k. EvTxBegin STORE_NAME ReadOnly) ids
                    @ map (\<lambda>k. EvRequest (Get k)) ids
                    @ concat (map (\<lambda>k. [EvTxComplete, EvResolve]) ids))
            \<and> (\<not> is_many op \<longrightarrow>
                  (\<exists>m rs. new_events w w'
                      = ini @ EvTxBegin STORE_NAME m # map EvRequest rs @ [EvTxComplete, EvResolve])))
       \<and> (\<forall>f opts. op = SaveAsset f opts \<longrightarrow>
            (\<exists>m r. p = Fulfilled (RMetadata m) \<and> map_of (assets w') (asset_id m) = Some r
                \<and> StoredAssetMetadata.truncate r = m \<and> blob r = f))
       \<and> (\<forall>u opts. op = SaveAssetFromDataUrl u opts \<longrightarrow>
            (\<exists>m r. p = Fulfilled (RMetadata m) \<and> map_of (assets w') (asset_id m) = Some r
                \<and> StoredAssetMetadata.truncate r = m \<and> dataUrlToBlob u = Inr (blob r)))
       \<and> (\<forall>k. op = DeleteAsset k \<longrightarrow> map_of (assets w') k = None)
       \<and> (op = ClearAllAssets \<longrightarrow> assets w' = []))"
proof -
  from perform_shape[OF assms] have budget: "tx_begins (new_events w w') \<le> tx_budget op"
    by (rule conjunct1)
  from perform_shape[OF assms] have shape: "fulfilled p \<longrightarrow>
         (\<exists>ini. list_all is_open_event ini
            \<and> (\<forall>ids. op = GetAssetsByIds ids \<longrightarrow>
                  new_events w w' = ini @ map (\<lambda>k. EvTxBegin STORE_NAME ReadOnly) ids
                    @ map (\<lambda>k. EvRequest (Get k)) ids
                    @ concat (map (\<lambda>k. [EvTxComplete, EvResolve]) ids))
            \<and> (\<not> is_many op \<longrightarrow>
                  (\<exists>m rs. new_events w w'
                      = ini @ EvTxBegin STORE_NAME m # map EvRequest rs @ [EvTxComplete, EvResolve])))"
    by (rule conjunct2)
  note scope = perform_scope[OF assms]
  show ?thesis
  proof (rule conjI[OF budget], rule conjI[OF scope], rule impI, rule conjI)
    assume f: "fulfilled p"
    from shape f show "\<exists>ini. list_all is_open_event ini
            \<and> (\<forall>ids. op = GetAssetsByIds ids \<longrightarrow>
                  new_events w w' = ini @ map (\<lambda>k. EvTxBegin STORE_NAME ReadOnly) ids
                    @ map (\<lambda>k. EvRequest (Get k)) ids
                    @ concat (map (\<lambda>k. [EvTxComplete, EvResolve]) ids))
            \<and> (\<not> is_many op \<longrightarrow>
                  (\<exists>m rs. new_events w w'
                      = ini @ EvTxBegin STORE_NAME m # map EvRequest rs @ [EvTxComplete, EvResolve]))"
      by (rule mp)
  next
    assume f: "fulfilled p"
    from perform_committed[OF assms f]
    show "(\<forall>f opts. op = SaveAsset f opts \<longrightarrow>
            (\<exists>m r. p = Fulfilled (RMetadata m) \<and> map_of (assets w') (asset_id m) = Some r
                \<and> StoredAssetMetadata.truncate r = m \<and> blob r = f))
       \<and> (\<forall>u opts. op = SaveAssetFromDataUrl u opts \<longrightarrow>
            (\<exists>m r. p = Fulfilled (RMetadata m) \<and> map_of (assets w') (asset_id m) = Some r
                \<and> StoredAssetMetadata.truncate r = m \<and> dataUrlToBlob u = Inr (blob r)))
       \<and> (\<forall>k. op = DeleteAsset k \<longrightarrow> map_of (assets w') k = None)
       \<and> (op = ClearAllAssets \<longrightarrow> assets w' = [])" .
  qed
qed

theorem one_transaction_per_operation_witness:
  "tx_begins (new_events (stored_world ''a'')
       (snd (perform sample_env sample_tenv (DeleteAsset ''a'') (stored_world ''a'')))) \<le> 1
   \<and> fulfilled (fst (perform sample_env sample_tenv (DeleteAsset ''a'') (stored_world ''a'')))
   \<and> new_events (stored_world ''a'')
       (snd (perform sample_env sample_tenv (DeleteAsset ''a'') (stored_world ''a'')))
       = [EvTxBegin ''assets'' ReadWrite, EvRequest (Delete ''a''), EvTxComplete, EvResolve]
   \<and> map_of (assets (stored_world ''a'')) ''a'' = Some (sample_record ''a'')
   \<and> map_of (assets (snd (perform sample_env sample_tenv (DeleteAsset ''a'') (stored_world ''a''))))
        ''a'' = None"
proof -
  let ?r = "perform sample_env sample_tenv (DeleteAsset ''a'') (stored_world ''a'')"
  have ev: "new_events (stored_world ''a'') (snd ?r)
       = [EvTxBegin ''assets'' ReadWrite, EvRequest (Delete ''a''), EvTxComplete, EvResolve]"
    and f: "fulfilled (fst ?r)"
    and before: "map_of (assets (stored_world ''a'')) ''a'' = Some (sample_record ''a'')"
    by (simp_all add: run_defs deleteAsset_def deleteAsset_executor_def idb_delete_def)
  note inst = one_transaction_per_operation[OF prod.collapse[symmetric], where e=sample_env
      and t=sample_tenv and op="DeleteAsset ''a''" and w="stored_world ''a''"]
  from inst have budget: "tx_begins (new_events (stored_world ''a'') (snd ?r)) \<le> 1"
    by (simp only: tx_budget.simps)
  from inst f have "map_of (assets (snd ?r)) ''a'' = None"
    by blast
  with budget ev f before show ?thesis by (intro conjI)
qed

text \<open>\<open>getAssetsByIds\<close> of two ids starts two transactions.\<close>

theorem one_transaction_per_operation_counterexample:
  "tx_begins (new_events (stored_world ''a'')
       (snd (perform sample_env sample_tenv (GetAssetsByIds [''a'', ''b'']) (stored_world ''a'')))) = 2
   \<and> fulfilled (fst (perform sample_env sample_tenv (GetAssetsByIds [''a'', ''b''])
                         (stored_world ''a'')))
   \<and> new_events (stored_world ''a'')
       (snd (perform sample_env sample_tenv (GetAssetsByIds [''a'', ''b'']) (stored_world ''a'')))
       = [EvTxBegin ''assets'' ReadOnly, EvTxBegin ''assets'' ReadOnly,
          EvRequest (Get ''a''), EvRequest (Get ''b''),
          EvTxComplete, EvResolve, EvTxComplete, EvResolve]"
  by (simp add: run_defs many_defs)

section \<open>Restoring a backup\<close>

lemma restoreBackup_forEach_filter:
  "restoreBackup_forEach saveDocument uid docs st
     = fold saveDocument (filter (\<lambda>d. userId d = uid) docs) st"
  by (induction docs arbitrary: st) simp_all

text \<open>
  C5: \<open>restoreBackup\<close> passes to \<open>saveDocument\<close> exactly the documents of the
  bundle whose \<open>userId\<close> equals the given one, in their order, and no other; a bundle
  of documents of other owners leaves the state as it was.
\<close>

theorem restoreBackup_writes_owner_only:
  "restoreBackup saveDocument backup uid st
     = fold saveDocument (filter (\<lambda>d. userId d = uid) (documents backup)) st
   \<and> restoreBackup (\<lambda>d written. written @ [d]) backup uid []
     = filter (\<lambda>d. userId d = uid) (documents backup)
   \<and> restoreBackup saveDocument
       (backup\<lparr>documents := filter (\<lambda>d. userId d \<noteq> uid) (documents backup)\<rparr>) uid st = st"
proof -
  have log: "fold (\<lambda>d written. written @ [d]) xs acc = acc @ xs" for xs acc :: "Document list"
    by (induction xs arbitrary: acc) simp_all
  have none: "filter (\<lambda>d. userId d = uid) (filter (\<lambda>d. userId d \<noteq> uid) xs) = []" for xs
    by (induction xs) simp_all
  show ?thesis
    by (simp add: restoreBackup_def restoreBackup_forEach_filter log none)
qed

theorem restoreBackup_writes_owner_only_witness:
  "restoreBackup (\<lambda>d written. written @ [d])
      \<lparr>version = ''1.0'', timestamp = ''2025-01-03'', documents = [docA, docB, docA]\<rparr>
      ''alice'' [] = [docA, docA]"
  using restoreBackup_writes_owner_only[of "\<lambda>d written. written @ [d]"
      "\<lparr>version = ''1.0'', timestamp = ''2025-01-03'', documents = [docA, docB, docA]\<rparr>"
      "''alice''" "[]"]
  by (simp add: docA_def docB_def)

section \<open>Importing a backup\<close>

lemma truthy_field_get:
  "truthy_field d k \<longleftrightarrow> (\<exists>v. get_property d k = Inr v \<and> truthy v)"
  by (cases d) auto

text \<open>
  C7 (amended): \<open>importBackup\<close> resolves with the parsed value exactly when the text
  parses and the parsed value is an object whose \<open>version\<close> and \<open>documents\<close>
  properties are both truthy; a parse error rejects with the parser's error, \<open>null\<close>
  with a \<open>TypeError\<close>, any other value with \<open>Invalid backup file format\<close>, and a
  failed read with \<open>Failed to read file\<close>.
\<close>

theorem importBackup_resolves_iff:
  "(importBackup parse (ReadText text) = Fulfilled d
      \<longleftrightarrow> parse text = Inr d \<and> truthy_field d ''version'' \<and> truthy_field d ''documents'')
   \<and> (parse text = Inl e \<longrightarrow> importBackup parse (ReadText text) = Rejected e)
   \<and> (parse text = Inr JNull \<longrightarrow>
        importBackup parse (ReadText text) = Rejected (TypeError ''Cannot read properties of null''))
   \<and> (parse text = Inr d \<and> d \<noteq> JNull
        \<and> \<not> (truthy_field d ''version'' \<and> truthy_field d ''documents'') \<longrightarrow>
        importBackup parse (ReadText text) = Rejected (Error ''Invalid backup file format''))
   \<and> importBackup parse ReadFailed = Rejected (Error ''Failed to read file'')"
proof -
  have 1: "importBackup parse (ReadText text) = Fulfilled d
      \<longleftrightarrow> parse text = Inr d \<and> truthy_field d ''version'' \<and> truthy_field d ''documents''"
    by (cases "parse text"; cases d)
       (auto simp: importBackup_def split: sum.splits)
  have 3: "parse text = Inl e \<longrightarrow> importBackup parse (ReadText text) = Rejected e"
    by (simp add: importBackup_def)
  have 4: "parse text = Inr JNull \<longrightarrow>
        importBackup parse (ReadText text) = Rejected (TypeError ''Cannot read properties of null'')"
    by (simp add: importBackup_def)
  have 5: "parse text = Inr d \<and> d \<noteq> JNull
        \<and> \<not> (truthy_field d ''version'' \<and> truthy_field d ''documents'') \<longrightarrow>
        importBackup parse (ReadText text) = Rejected (Error ''Invalid backup file format'')"
    by (cases d) (auto simp: importBackup_def)
  have 6: "importBackup parse ReadFailed = Rejected (Error ''Failed to read file'')"
    by (simp add: importBackup_def)
  from 1 3 4 5 6 show ?thesis by blast
qed

theorem importBackup_resolves_iff_witness:
  "sample_parse good_backup_text = Inr good_backup_value
   \<and> truthy_field good_backup_value ''version'' \<and> truthy_field good_backup_value ''documents''
   \<and> importBackup sample_parse (ReadText good_backup_text) = Fulfilled good_backup_value
   \<and> importBackup sample_parse (ReadText ''not json'') = Rejected (SyntaxError ''Unexpected token'')
   \<and> importBackup sample_parse ReadFailed = Rejected (Error ''Failed to read file'')"
proof -
  have p: "sample_parse good_backup_text = Inr good_backup_value"
    by (simp add: sample_parse_def good_backup_text_def empty_version_text_def)
  have q: "sample_parse ''not json'' = Inl (SyntaxError ''Unexpected token'')"
    by (simp add: sample_parse_def good_backup_text_def empty_version_text_def)
  have t: "truthy_field good_backup_value ''version''" "truthy_field good_backup_value ''documents''"
    by (simp_all add: good_backup_value_def)
  from importBackup_resolves_iff[of sample_parse good_backup_text good_backup_value]
    importBackup_resolves_iff[of sample_parse "''not json''" _ "SyntaxError ''Unexpected token''"]
    p q t
  show ?thesis by simp
qed

text \<open>A value that has both fields, the version being the empty string, is rejected.\<close>

theorem importBackup_resolves_iff_counterexample:
  "sample_parse empty_version_text = Inr empty_version_value
   \<and> has_field empty_version_value ''version'' \<and> has_field empty_version_value ''documents''
   \<and> importBackup sample_parse (ReadText empty_version_text)
       = Rejected (Error ''Invalid backup file format'')"
  by (simp add: sample_parse_def importBackup_def empty_version_value_def)

section \<open>Retention of the automatic backups\<close>

text \<open>The order of the keys: decimal numerals of equal length compare as the numbers.\<close>

lemma digit_char_less: "a < 10 \<Longrightarrow> b < 10 \<Longrightarrow> (digit_char a < digit_char b) = (a < b)"
  by (simp add: digit_char_def less_char_def)

lemma digit_char_eq: "a < 10 \<Longrightarrow> b < 10 \<Longrightarrow> (digit_char a = digit_char b) = (a = b)"
proof -
  assume a: "a < 10" and b: "b < 10"
  have "of_char (digit_char a) = (48 + a :: nat)" "of_char (digit_char b) = (48 + b :: nat)"
    using a b by (simp_all add: digit_char_def)
  then show ?thesis by (metis add_left_cancel)
qed

lemma snoc_less:
  "length xs = length ys \<Longrightarrow> (xs @ [a] < ys @ [b]) = (xs < ys \<or> (xs = ys \<and> a < b))"
  for xs ys :: "'a::linorder list"
  by (induction xs ys rule: list_induct2) auto


lemma dec_length_one: "(length (dec n) = 1) = (n < 10)"
proof (cases "n < 10")
  case True
  then show ?thesis by (subst dec.simps) simp
next
  case False
  have "dec n = dec (n div 10) @ [digit_char (n mod 10)]"
    using False by (subst dec.simps) simp
  with dec_nonempty[of "n div 10"] False show ?thesis
    by (cases "dec (n div 10)") simp_all
qed

lemma lex10:
  "ra < 10 \<Longrightarrow> rb < 10 \<Longrightarrow>
     (qa < qb \<or> (qa = qb \<and> ra < rb)) = (10 * qa + ra < 10 * qb + (rb::nat))"
  by arith

lemma eq10:
  "ra < 10 \<Longrightarrow> rb < 10 \<Longrightarrow> (qa = qb \<and> ra = rb) = (10 * qa + ra = 10 * qb + (rb::nat))"
  by arith

lemma dec_order:
  "length (dec a) = length (dec b) \<Longrightarrow> (dec a < dec b) = (a < b) \<and> (dec a = dec b) = (a = b)"
proof (induction a arbitrary: b rule: dec.induct)
  case (1 a)
  show ?case
  proof (cases "a < 10")
    case True
    then have da: "dec a = [digit_char a]" by (subst dec.simps) simp
    with "1.prems" have "length (dec b) = 1" by simp
    then have b: "b < 10" using dec_length_one[of b] by simp
    then have db: "dec b = [digit_char b]" by (subst dec.simps) simp
    from True b show ?thesis
      by (simp add: da db digit_char_less digit_char_eq)
  next
    case False
    then have da: "dec a = dec (a div 10) @ [digit_char (a mod 10)]" by (subst dec.simps) simp
    from False have "length (dec a) \<noteq> 1" using dec_length_one[of a] by simp
    with "1.prems" have b: "\<not> b < 10" using dec_length_one[of b] by simp
    then have db: "dec b = dec (b div 10) @ [digit_char (b mod 10)]" by (subst dec.simps) simp
    from "1.prems" da db have len: "length (dec (a div 10)) = length (dec (b div 10))" by simp
    note IH = "1.IH"[OF False len]
    have "(dec a < dec b) = (dec (a div 10) < dec (b div 10)
        \<or> (dec (a div 10) = dec (b div 10) \<and> digit_char (a mod 10) < digit_char (b mod 10)))"
      unfolding da db by (rule snoc_less[OF len])
    also have "\<dots> = (a div 10 < b div 10 \<or> (a div 10 = b div 10 \<and> a mod 10 < b mod 10))"
      using IH by (simp add: digit_char_less)
    also have "\<dots> = (a < b)"
      using lex10[of "a mod 10" "b mod 10" "a div 10" "b div 10"] by simp
    finally have less: "(dec a < dec b) = (a < b)" .
    have "(dec a = dec b) = (dec (a div 10) = dec (b div 10) \<and> digit_char (a mod 10) = digit_char (b mod 10))"
      unfolding da db by simp
    also have "\<dots> = (a div 10 = b div 10 \<and> a mod 10 = b mod 10)"
      using IH by (simp add: digit_char_eq)
    also have "\<dots> = (a = b)"
      using eq10[of "a mod 10" "b mod 10" "a div 10" "b div 10"] by simp
    finally show ?thesis using less by simp
  qed
qed

lemma show_int_nat: "show_int (int n) = dec n"
  by (simp add: show_int_def)


lemma backup_key_eq:
  "length (dec a) = length (dec b) \<Longrightarrow> (backup_key (int a) = backup_key (int b)) = (a = b)"
  by (simp add: backup_key_def show_int_nat dec_order)
























section \<open>Retrying sign-in and sign-up\<close>

lemma attempt_loop_unfold:
  "attempt_loop b 0 None [] =
    (case error (b 0) of
       None \<Rightarrow> (\<lparr>result_data = Some (data (b 0)), result_error = None\<rparr>, [Called 0])
     | Some e0 \<Rightarrow>
        if \<not> is_transient e0 then (\<lparr>result_data = None, result_error = Some e0\<rparr>, [Called 0])
        else
         (case error (b 1) of
            None \<Rightarrow> (\<lparr>result_data = Some (data (b 1)), result_error = None\<rparr>,
                      [Called 0, Delayed 400, Called 1])
          | Some e1 \<Rightarrow>
             if \<not> is_transient e1
             then (\<lparr>result_data = None, result_error = Some e1\<rparr>, [Called 0, Delayed 400, Called 1])
             else
              (case error (b 2) of
                 None \<Rightarrow> (\<lparr>result_data = Some (data (b 2)), result_error = None\<rparr>,
                           [Called 0, Delayed 400, Called 1, Delayed 800, Called 2])
               | Some e2 \<Rightarrow>
                  if \<not> is_transient e2
                  then (\<lparr>result_data = None, result_error = Some e2\<rparr>,
                        [Called 0, Delayed 400, Called 1, Delayed 800, Called 2])
                  else (\<lparr>result_data = None, result_error = Some e2\<rparr>,
                        [Called 0, Delayed 400, Called 1, Delayed 800, Called 2, Delayed 1600]))))"
proof -
  have three: "attempt_loop b 3 le tr = (\<lparr>result_data = None, result_error = le\<rparr>, tr)" for le tr
    by (subst attempt_loop.simps) simp
  have two: "attempt_loop b 2 le tr =
      (case error (b 2) of
         None \<Rightarrow> (\<lparr>result_data = Some (data (b 2)), result_error = None\<rparr>, tr @ [Called 2])
       | Some e \<Rightarrow> if is_transient e
            then (\<lparr>result_data = None, result_error = Some e\<rparr>, tr @ [Called 2, Delayed 1600])
            else (\<lparr>result_data = None, result_error = Some e\<rparr>, tr @ [Called 2]))" for le tr
    by (subst attempt_loop.simps) (simp add: three split: option.splits)
  have one: "attempt_loop b 1 le tr =
      (case error (b 1) of
         None \<Rightarrow> (\<lparr>result_data = Some (data (b 1)), result_error = None\<rparr>, tr @ [Called 1])
       | Some e \<Rightarrow> if is_transient e
            then attempt_loop b 2 (Some e) (tr @ [Called 1, Delayed 800])
            else (\<lparr>result_data = None, result_error = Some e\<rparr>, tr @ [Called 1]))" for le tr
    by (subst attempt_loop.simps) (simp add: numeral_2_eq_2 split: option.splits)
  have zero: "attempt_loop b 0 le tr =
      (case error (b 0) of
         None \<Rightarrow> (\<lparr>result_data = Some (data (b 0)), result_error = None\<rparr>, tr @ [Called 0])
       | Some e \<Rightarrow> if is_transient e
            then attempt_loop b 1 (Some e) (tr @ [Called 0, Delayed 400])
            else (\<lparr>result_data = None, result_error = Some e\<rparr>, tr @ [Called 0]))" for le tr
    by (subst attempt_loop.simps) (simp split: option.splits)
  show ?thesis
    by (simp add: zero one[unfolded One_nat_def] two split: option.splits)
qed

lemma attempt_loop_contract:
  assumes "(res, tr) = attempt_loop b 0 None []"
  shows "(\<exists>rest. tr = Called 0 # rest)
     \<and> length (filter is_call tr) \<le> 3 \<and> distinct tr
     \<and> (\<forall>k. Called k \<in> set tr \<longrightarrow> k < 3)
     \<and> (\<forall>k. Called (Suc k) \<in> set tr \<longrightarrow>
            (\<exists>e. error (b k) = Some e \<and> is_transient e)
          \<and> adjacent3 (Called k) (Delayed (400 * 2 ^ k)) (Called (Suc k)) tr)
     \<and> (\<forall>k e. Called k \<in> set tr \<and> error (b k) = Some e \<and> is_transient e \<and> Suc k < 3 \<longrightarrow>
            Called (Suc k) \<in> set tr)
     \<and> (\<forall>k. Called k \<in> set tr \<and> error (b k) = None \<longrightarrow>
            res = \<lparr>result_data = Some (data (b k)), result_error = None\<rparr> \<and> last tr = Called k)
     \<and> (\<forall>k e. Called k \<in> set tr \<and> error (b k) = Some e \<and> \<not> is_transient e \<longrightarrow>
            res = \<lparr>result_data = None, result_error = Some e\<rparr> \<and> last tr = Called k)
     \<and> (\<forall>e. Called 2 \<in> set tr \<and> error (b 2) = Some e \<and> is_transient e \<longrightarrow>
            res = \<lparr>result_data = None, result_error = Some e\<rparr> \<and> last tr = Delayed 1600)"
proof -
  note u = assms[unfolded attempt_loop_unfold]
  have calls: "Called k \<in> set tr \<Longrightarrow> k = 0 \<or> k = 1 \<or> k = 2" for k
    using u by (auto split: option.splits if_splits)
  have 0: "\<exists>rest. tr = Called 0 # rest"
    using u by (auto split: option.splits if_splits)
  have 1: "length (filter is_call tr) \<le> 3 \<and> distinct tr"
    using u by (auto split: option.splits if_splits)
  have 2: "(\<exists>e. error (b k) = Some e \<and> is_transient e)
          \<and> adjacent3 (Called k) (Delayed (400 * 2 ^ k)) (Called (Suc k)) tr"
    if "Called (Suc k) \<in> set tr" for k
  proof -
    from calls[OF that] have "k = 0 \<or> k = 1" by auto
    then show ?thesis
    proof
      assume "k = 0"
      with that u show ?thesis by (auto split: option.splits if_splits)
    next
      assume "k = 1"
      with that u show ?thesis by (auto split: option.splits if_splits simp: numeral_2_eq_2)
    qed
  qed
  have 3: "res = \<lparr>result_data = Some (data (b k)), result_error = None\<rparr> \<and> last tr = Called k"
    if "Called k \<in> set tr" "error (b k) = None" for k
  proof -
    from calls[OF that(1)] consider "k = 0" | "k = 1" | "k = 2" by blast
    then show ?thesis
    proof cases
      case 1 with that u show ?thesis by (auto split: option.splits if_splits)
    next
      case 2 with that u show ?thesis by (auto split: option.splits if_splits)
    next
      case 3 with that u show ?thesis by (auto split: option.splits if_splits simp: numeral_2_eq_2)
    qed
  qed
  have 4: "res = \<lparr>result_data = None, result_error = Some e\<rparr> \<and> last tr = Called k"
    if "Called k \<in> set tr" "error (b k) = Some e" "\<not> is_transient e" for k e
  proof -
    from calls[OF that(1)] consider "k = 0" | "k = 1" | "k = 2" by blast
    then show ?thesis
    proof cases
      case 1 with that u show ?thesis by (auto split: option.splits if_splits)
    next
      case 2 with that u show ?thesis by (auto split: option.splits if_splits)
    next
      case 3 with that u show ?thesis by (auto split: option.splits if_splits simp: numeral_2_eq_2)
    qed
  qed
  have 5: "Called (Suc k) \<in> set tr"
    if "Called k \<in> set tr" "error (b k) = Some e" "is_transient e" "Suc k < 3" for k e
  proof -
    from calls[OF that(1)] that(4) have "k = 0 \<or> k = 1" by auto
    then show ?thesis
    proof
      assume "k = 0"
      with that u show ?thesis by (auto split: option.splits if_splits)
    next
      assume "k = 1"
      with that u show ?thesis by (auto split: option.splits if_splits simp: numeral_2_eq_2)
    qed
  qed
  have 6: "res = \<lparr>result_data = None, result_error = Some e\<rparr> \<and> last tr = Delayed 1600"
    if "Called 2 \<in> set tr" "error (b 2) = Some e" "is_transient e" for e
    using that u by (auto split: option.splits if_splits)
  have 7: "k < 3" if "Called k \<in> set tr" for k
    using calls[OF that] by auto
  from 0 1 2 3 4 5 6 7 show ?thesis by blast
qed

text \<open>
  C6: \<open>signIn\<close> and \<open>signUp\<close> call the backend, at most three times and once
  for each attempt; a transient
  failure of a call that was not the third is followed by another call, a further call is
  made only after a transient failure of the call before it, and right after a delay of
  400 ms times two to the power of that attempt's index; a success and a failure that is
  not transient are returned at once, as the last thing done; after a third transient
  failure the error of that call is returned.  The result is a value in every case.
\<close>

theorem signIn_signUp_retry:
  assumes "(b = signInWithPassword \<lparr>email = m @ ''@app.local'', password = pw\<rparr>
            \<and> (res, tr) = signIn signInWithPassword m pw)
         \<or> (b = backend_signUp \<lparr>email = m @ ''@app.local'', password = pw,
                   emailRedirectTo = origin @ baseUrl, mobile_number = m\<rparr>
            \<and> (res, tr) = signUp backend_signUp origin baseUrl m pw)"
  shows "(\<exists>rest. tr = Called 0 # rest)
     \<and> length (filter is_call tr) \<le> 3 \<and> distinct tr
     \<and> (\<forall>k. Called k \<in> set tr \<longrightarrow> k < 3)
     \<and> (\<forall>k. Called (Suc k) \<in> set tr \<longrightarrow>
            (\<exists>e. error (b k) = Some e \<and> is_transient e)
          \<and> adjacent3 (Called k) (Delayed (400 * 2 ^ k)) (Called (Suc k)) tr)
     \<and> (\<forall>k e. Called k \<in> set tr \<and> error (b k) = Some e \<and> is_transient e \<and> Suc k < 3 \<longrightarrow>
            Called (Suc k) \<in> set tr)
     \<and> (\<forall>k. Called k \<in> set tr \<and> error (b k) = None \<longrightarrow>
            res = \<lparr>result_data = Some (data (b k)), result_error = None\<rparr> \<and> last tr = Called k)
     \<and> (\<forall>k e. Called k \<in> set tr \<and> error (b k) = Some e \<and> \<not> is_transient e \<longrightarrow>
            res = \<lparr>result_data = None, result_error = Some e\<rparr> \<and> last tr = Called k)
     \<and> (\<forall>e. Called 2 \<in> set tr \<and> error (b 2) = Some e \<and> is_transient e \<longrightarrow>
            res = \<lparr>result_data = None, result_error = Some e\<rparr> \<and> last tr = Delayed 1600)"
proof -
  from assms have "(res, tr) = attempt_loop b 0 None []"
    by (auto simp: signIn_def signUp_def)
  then show ?thesis by (rule attempt_loop_contract)
qed

lemma invalid_credentials_not_transient: "\<not> is_transient invalid_credentials"
  by (simp add: is_transient_def invalid_credentials_def transient_message_def
      starts_with_ci_def eq_ci_def to_lower_def)

theorem signIn_signUp_retry_witness:
  "signIn flaky_backend ''5551234'' ''secret''
     = (\<lparr>result_data = Some ''session'', result_error = None\<rparr>,
        [Called 0, Delayed 400, Called 1, Delayed 800, Called 2])
   \<and> length (filter is_call (snd (signIn flaky_backend ''5551234'' ''secret''))) \<le> 3
   \<and> adjacent3 (Called 1) (Delayed 800) (Called 2) (snd (signIn flaky_backend ''5551234'' ''secret''))
   \<and> signUp rejecting_backend ''https://app.example'' ''/'' ''5551234'' ''secret''
     = (\<lparr>result_data = None, result_error = Some invalid_credentials\<rparr>, [Called 0])"
proof -
  let ?b = "flaky_backend \<lparr>email = ''5551234'' @ ''@app.local'', password = ''secret''\<rparr>
              :: nat \<Rightarrow> string auth_response"
  have run: "signIn flaky_backend ''5551234'' ''secret''
     = (\<lparr>result_data = Some ''session'', result_error = None\<rparr>,
        [Called 0, Delayed 400, Called 1, Delayed 800, Called 2])"
    by (simp add: signIn_def attempt_loop_unfold flaky_backend_def is_transient_def
        unavailable_def)
  have up: "signUp rejecting_backend ''https://app.example'' ''/'' ''5551234'' ''secret''
     = (\<lparr>result_data = None, result_error = Some invalid_credentials\<rparr>, [Called 0])"
    by (simp add: signUp_def attempt_loop_unfold rejecting_backend_def
        invalid_credentials_not_transient)
  have h: "(?b = flaky_backend \<lparr>email = ''5551234'' @ ''@app.local'', password = ''secret''\<rparr>
            \<and> (\<lparr>result_data = Some ''session'', result_error = None\<rparr>,
                [Called 0, Delayed 400, Called 1, Delayed 800, Called 2])
               = signIn flaky_backend ''5551234'' ''secret'')
         \<or> (?b = rejecting_backend \<lparr>email = ''5551234'' @ ''@app.local'', password = ''secret'',
                   emailRedirectTo = [] @ [], mobile_number = ''5551234''\<rparr>
            \<and> (\<lparr>result_data = Some ''session'', result_error = None\<rparr>,
                [Called 0, Delayed 400, Called 1, Delayed 800, Called 2])
               = signUp rejecting_backend [] [] ''5551234'' ''secret'')"
    using run by simp
  from signIn_signUp_retry[OF h] run up show ?thesis
    by (simp add: numeral_2_eq_2)
qed

section \<open>Base64 and data URLs\<close>

lemma b64_alphabet_length: "length b64_alphabet = 64"
  by (simp add: b64_alphabet_def)

lemma b64_alphabet_distinct: "distinct b64_alphabet"
  by (simp add: b64_alphabet_def)

lemma index_of_nth:
  "distinct xs \<Longrightarrow> i < length xs \<Longrightarrow> index_of xs (xs ! i) = Some i"
proof (induction xs arbitrary: i)
  case Nil
  then show ?case by simp
next
  case (Cons x xs)
  show ?case
  proof (cases i)
    case 0
    then show ?thesis by simp
  next
    case (Suc j)
    with Cons.prems have "xs ! j \<in> set xs" "x \<notin> set xs" by auto
    then have "x \<noteq> xs ! j" by auto
    with Cons Suc show ?thesis by simp
  qed
qed

lemma b64_value_char: "s < 64 \<Longrightarrow> index_of b64_alphabet (b64_char s) = Some s"
  unfolding b64_char_def
  by (rule index_of_nth[OF b64_alphabet_distinct]) (simp add: b64_alphabet_length)

lemma b64_char_in_alphabet: "s < 64 \<Longrightarrow> b64_char s \<in> set b64_alphabet"
  by (simp add: b64_char_def b64_alphabet_length)

lemma alphabet_chars:
  "c \<in> set b64_alphabet \<Longrightarrow> c \<noteq> CHR ''='' \<and> c \<noteq> CHR '','' \<and> \<not> ascii_whitespace c"
  by (auto simp: b64_alphabet_def ascii_whitespace_def)

lemma unat_byte: "unat (a :: 8 word) < 256"
proof -
  have "unat a < 2 ^ LENGTH(8)" by (rule unsigned_less)
  then show ?thesis by simp
qed

lemma b64_sextets_bound: "s \<in> set (b64_sextets bs) \<Longrightarrow> s < 64"
proof (induction bs arbitrary: s rule: b64_sextets.induct)
  case 1
  then show ?case by simp
next
  case (2 a)
  with unat_byte[of a] show ?case by auto
next
  case (3 a b)
  with unat_byte[of a] unat_byte[of b] show ?case by auto
next
  case (4 a b c rest)
  with unat_byte[of a] unat_byte[of b] unat_byte[of c] show ?case by auto
qed

lemma div_mod_16: "y < 16 \<Longrightarrow> (x * 16 + y) div 16 = x \<and> (x * 16 + y) mod 16 = (y::nat)"
  by simp

lemma div_mod_4: "y < 4 \<Longrightarrow> (x * 4 + y) div 4 = x \<and> (x * 4 + y) mod 4 = (y::nat)"
  by simp

lemma div_mod_64: "y < 64 \<Longrightarrow> (x * 64 + y) div 64 = x \<and> (x * 64 + y) mod 64 = (y::nat)"
  by simp

lemma byte_split4: "of_nat (unat a div 4 * 4 + unat a mod 4) = (a :: 8 word)"
  by simp

lemma byte_split16: "of_nat (unat a div 16 * 16 + unat a mod 16) = (a :: 8 word)"
  by simp

lemma byte_split64: "of_nat (unat a div 64 * 64 + unat a mod 64) = (a :: 8 word)"
  by simp

lemma decode_first:
  "of_nat (unat a div 4 * 4 + (unat a mod 4 * 16 + unat b div 16) div 16) = a"
  for a b :: "8 word"
proof -
  have "unat b div 16 < 16" using unat_byte[of b] by simp
  then have "(unat a mod 4 * 16 + unat b div 16) div 16 = unat a mod 4"
    using div_mod_16 by blast
  then show ?thesis by simp
qed

lemma decode_second:
  "of_nat ((unat a mod 4 * 16 + unat b div 16) mod 16 * 16 + (unat b mod 16 * 4 + unat c div 64) div 4)
     = b"
  for a b c :: "8 word"
proof -
  have "unat b div 16 < 16" using unat_byte[of b] by simp
  then have 1: "(unat a mod 4 * 16 + unat b div 16) mod 16 = unat b div 16"
    using div_mod_16 by blast
  have "unat c div 64 < 4" using unat_byte[of c] by simp
  then have 2: "(unat b mod 16 * 4 + unat c div 64) div 4 = unat b mod 16"
    using div_mod_4 by blast
  show ?thesis unfolding 1 2 by simp
qed

lemma decode_third:
  "of_nat ((unat b mod 16 * 4 + unat c div 64) mod 4 * 64 + unat c mod 64) = c"
  for b c :: "8 word"
proof -
  have "unat c div 64 < 4" using unat_byte[of c] by simp
  then have "(unat b mod 16 * 4 + unat c div 64) mod 4 = unat c div 64"
    using div_mod_4 by blast
  then show ?thesis by simp
qed

lemma decode_first_last: "of_nat (unat a div 4 * 4 + (unat a mod 4 * 16) div 16) = (a :: 8 word)"
  by simp

lemma decode_second_last:
  "of_nat ((unat a mod 4 * 16 + unat b div 16) mod 16 * 16 + (unat b mod 16 * 4) div 4) = b"
  for a b :: "8 word"
proof -
  have "unat b div 16 < 16" using unat_byte[of b] by simp
  then have 1: "(unat a mod 4 * 16 + unat b div 16) mod 16 = unat b div 16"
    using div_mod_16 by blast
  show ?thesis unfolding 1 by simp
qed

lemma b64_bytes_sextets: "b64_bytes (b64_sextets bs) = bs"
proof (induction bs rule: b64_sextets.induct)
  case 1
  show ?case by simp
next
  case (2 a)
  show ?case using decode_first_last[of a] by simp
next
  case (3 a b)
  show ?case using decode_first[of a b] decode_second_last[of a b] by simp
next
  case (4 a b c rest)
  show ?case
    using decode_first[of a b] decode_second[of a b c] decode_third[of b c] 4 by simp
qed

lemma those_values:
  "(\<forall>s \<in> set ss. s < 64) \<Longrightarrow> those (map (index_of b64_alphabet) (map b64_char ss)) = Some ss"
  by (induction ss) (simp_all add: b64_value_char)

lemma sextet_chars:
  assumes "c \<in> set (map b64_char (b64_sextets bs))"
  shows "c \<noteq> CHR ''='' \<and> c \<noteq> CHR '','' \<and> \<not> ascii_whitespace c"
proof -
  from assms obtain s where "s \<in> set (b64_sextets bs)" "c = b64_char s" by auto
  then have "c \<in> set b64_alphabet"
    using b64_char_in_alphabet b64_sextets_bound by blast
  then show ?thesis by (rule alphabet_chars)
qed

lemma strip_padding_none: "CHR ''='' \<notin> set xs \<Longrightarrow> strip_padding xs = xs"
  by (cases xs rule: rev_cases) (auto simp: strip_padding_def split: list.splits)

lemma strip_padding_one: "CHR ''='' \<notin> set xs \<Longrightarrow> strip_padding (xs @ [CHR ''='']) = xs"
  by (cases xs rule: rev_cases) (auto simp: strip_padding_def split: list.splits)

lemma strip_padding_two:
  "strip_padding (xs @ [CHR ''='', CHR ''='']) = xs"
  by (simp add: strip_padding_def)

lemma sextets_length:
  "(length bs mod 3 = 0 \<and> length (b64_sextets bs) mod 4 = 0)
   \<or> (length bs mod 3 = 1 \<and> length (b64_sextets bs) mod 4 = 2)
   \<or> (length bs mod 3 = 2 \<and> length (b64_sextets bs) mod 4 = 3)"
proof (induction bs rule: b64_sextets.induct)
  case (4 a b c rest)
  have e1: "length (a # b # c # rest) mod 3 = length rest mod 3"
  proof -
    have "length (a # b # c # rest) = length rest + 3" by simp
    then show ?thesis by (metis mod_add_self2)
  qed
  have e2: "length (b64_sextets (a # b # c # rest)) mod 4 = length (b64_sextets rest) mod 4"
  proof -
    have "length (b64_sextets (a # b # c # rest)) = length (b64_sextets rest) + 4" by simp
    then show ?thesis by (metis mod_add_self2)
  qed
  show ?case unfolding e1 e2 by (rule 4)
qed simp_all

lemma atob_base64_encode: "atob (base64_encode bs) = Inr bs"
proof -
  let ?cs = "map b64_char (b64_sextets bs)"
  let ?pad = "b64_padding (length bs)"
  have noeq: "CHR ''='' \<notin> set ?cs" using sextet_chars[of _ bs] by blast
  have nows: "filter (\<lambda>c. \<not> ascii_whitespace c) (base64_encode bs) = base64_encode bs"
  proof -
    have "\<not> ascii_whitespace c" if "c \<in> set (base64_encode bs)" for c
    proof -
      from that have "c \<in> set ?cs \<or> c = CHR ''=''"
        by (auto simp: base64_encode_def b64_padding_def)
      then show ?thesis using sextet_chars[of c bs] by (auto simp: ascii_whitespace_def)
    qed
    then show ?thesis by (simp add: filter_id_conv)
  qed
  have len: "length (base64_encode bs) mod 4 = 0"
    and strip: "strip_padding (base64_encode bs) = ?cs"
    and not1: "length ?cs mod 4 \<noteq> 1"
  proof -
    from sextets_length[of bs] consider
      (z) "length bs mod 3 = 0" "length (b64_sextets bs) mod 4 = 0"
      | (o) "length bs mod 3 = 1" "length (b64_sextets bs) mod 4 = 2"
      | (t) "length bs mod 3 = 2" "length (b64_sextets bs) mod 4 = 3" by metis
    then have "length (base64_encode bs) mod 4 = 0 \<and> strip_padding (base64_encode bs) = ?cs
        \<and> length ?cs mod 4 \<noteq> 1"
    proof cases
      case z
      then have "?pad = []" by (simp add: b64_padding_def)
      with z noeq show ?thesis by (simp add: base64_encode_def strip_padding_none)
    next
      case o
      then have "?pad = [CHR ''='', CHR ''='']" by (simp add: b64_padding_def numeral_2_eq_2)
      with o show ?thesis
        using strip_padding_two[of ?cs] by (simp add: base64_encode_def mod_Suc)
    next
      case t
      then have "?pad = [CHR ''='']" by (simp add: b64_padding_def)
      with t noeq show ?thesis
        using strip_padding_one[of ?cs] by (simp add: base64_encode_def mod_Suc)
    qed
    then show "length (base64_encode bs) mod 4 = 0"
      and "strip_padding (base64_encode bs) = ?cs"
      and "length ?cs mod 4 \<noteq> 1" by blast+
  qed
  have vals: "those (map (index_of b64_alphabet) ?cs) = Some (b64_sextets bs)"
    by (rule those_values) (use b64_sextets_bound in blast)
  show ?thesis
    unfolding atob_def nows Let_def
    using len strip not1 vals by (simp add: b64_bytes_sextets)
qed

lemma base64_no_comma: "CHR '','' \<notin> set (base64_encode bs)"
proof -
  have "c \<noteq> CHR '',''" if "c \<in> set (base64_encode bs)" for c
  proof -
    from that have "c \<in> set (map b64_char (b64_sextets bs)) \<or> c = CHR ''=''"
      by (auto simp: base64_encode_def b64_padding_def)
    then show ?thesis using sextet_chars[of c bs] by auto
  qed
  then show ?thesis by blast
qed

lemma split_on_none: "c \<notin> set xs \<Longrightarrow> split_on c xs = [xs]"
  by (induction xs) auto

lemma split_on_first:
  "c \<notin> set xs \<Longrightarrow> split_on c (xs @ c # ys) = xs # split_on c ys"
  by (induction xs) auto

lemma printable_not_line_terminator: "printable c \<Longrightarrow> \<not> line_terminator c"
  by (auto simp: printable_def line_terminator_def)

lemma strip_suffix: "strip_base64_suffix (t @ '';base64'') = t"
  by (simp add: strip_base64_suffix_def eq_ci_def)

lemma mime_exec_data:
  assumes "list_all printable t"
  shows "mime_exec (''data:'' @ t @ '';base64'') = Some t"
proof -
  have "\<not> list_ex line_terminator (t @ '';base64'')"
    using assms printable_not_line_terminator
    by (auto simp: list_ex_iff list_all_iff line_terminator_def)
  then show ?thesis
    by (simp add: starts_with_ci_def eq_ci_def strip_suffix)
qed

lemma normalize_type_fixed:
  assumes "normalize_type t = t" "t \<noteq> []"
  shows "list_all printable t"
  using assms by (auto simp: normalize_type_def split: if_splits)

lemma octet_stream_type:
  "normalize_type ''application/octet-stream'' = ''application/octet-stream''"
  "list_all printable ''application/octet-stream''"
  by (simp_all add: normalize_type_def printable_def to_lower_def)

lemma dataUrlToBlob_encoded:
  assumes "list_all printable t" "normalize_type t = t" "t \<noteq> []" "CHR '','' \<notin> set t"
  shows "dataUrlToBlob (''data:'' @ t @ '';base64,'' @ base64_encode bs)
           = Inr \<lparr>bytes = bs, blob_type = t, file_name = None\<rparr>"
proof -
  have nc: "CHR '','' \<notin> set (''data:'' @ t @ '';base64'')" using assms(4) by simp
  have "''data:'' @ t @ '';base64,'' @ base64_encode bs
          = (''data:'' @ t @ '';base64'') @ CHR '','' # base64_encode bs" by simp
  then have parts: "split_on (CHR '','') (''data:'' @ t @ '';base64,'' @ base64_encode bs)
          = [''data:'' @ t @ '';base64'', base64_encode bs]"
    using split_on_first[OF nc, of "base64_encode bs"] split_on_none[OF base64_no_comma[of bs]]
    by simp
  show ?thesis
    unfolding dataUrlToBlob_def parts Let_def
    using assms(2,3) mime_exec_data[OF assms(1)]
    by (simp add: atob_base64_encode new_Blob_def)
qed

text \<open>
  C9 (amended): for a blob whose type is as the \<open>Blob\<close> constructor leaves it and holds
  no comma, the data URL made by the encoder decodes to a blob of the same bytes, hence
  the same size, and of the same type when that type is not empty; a blob without a type
  comes back with the type \<open>application/octet-stream\<close>.
\<close>

theorem data_url_round_trip:
  assumes "normalize_type (blob_type b) = blob_type b" and "CHR '','' \<notin> set (blob_type b)"
  shows "blobToDataUrl None b = Fulfilled (readAsDataURL b)
    \<and> (\<exists>b'. dataUrlToBlob (readAsDataURL b) = Inr b'
          \<and> blob_size b' = blob_size b \<and> bytes b' = bytes b
          \<and> blob_type b'
              = (if blob_type b = [] then ''application/octet-stream'' else blob_type b))"
proof (cases "blob_type b = []")
  case True
  have "dataUrlToBlob (''data:'' @ ''application/octet-stream'' @ '';base64,'' @ base64_encode (bytes b))
          = Inr \<lparr>bytes = bytes b, blob_type = ''application/octet-stream'', file_name = None\<rparr>"
    by (rule dataUrlToBlob_encoded[OF octet_stream_type(2,1)]) simp_all
  with True show ?thesis
    by (simp add: blobToDataUrl_def readAsDataURL_def blob_size_def)
next
  case False
  from normalize_type_fixed[OF assms(1) False]
  have p: "list_all printable (blob_type b)" .
  from dataUrlToBlob_encoded[OF p assms(1) False assms(2), of "bytes b"] False
  show ?thesis
    by (simp add: blobToDataUrl_def readAsDataURL_def blob_size_def)
qed

theorem data_url_round_trip_witness:
  "normalize_type (blob_type sample_blob) = blob_type sample_blob
   \<and> CHR '','' \<notin> set (blob_type sample_blob)
   \<and> readAsDataURL sample_blob = ''data:image/png;base64,AQID''
   \<and> dataUrlToBlob (readAsDataURL sample_blob)
       = Inr \<lparr>bytes = [1, 2, 3], blob_type = ''image/png'', file_name = None\<rparr>"
proof -
  have h: "normalize_type (blob_type sample_blob) = blob_type sample_blob"
    "CHR '','' \<notin> set (blob_type sample_blob)"
    by (simp_all add: sample_blob_def normalize_type_def printable_def to_lower_def)
  have u: "readAsDataURL sample_blob = ''data:image/png;base64,AQID''"
    by code_simp
  have run: "dataUrlToBlob (readAsDataURL sample_blob)
       = Inr \<lparr>bytes = [1, 2, 3], blob_type = ''image/png'', file_name = None\<rparr>"
    by code_simp
  from data_url_round_trip[OF h] h u run show ?thesis by simp
qed

text \<open>
  A blob without a type comes back typed, and a type that holds a comma makes the decoder
  split the URL in the wrong place and fail.
\<close>

theorem data_url_round_trip_counterexample:
  "blob_type untyped_blob = []
   \<and> dataUrlToBlob (readAsDataURL untyped_blob)
       = Inr \<lparr>bytes = [1, 2, 3], blob_type = ''application/octet-stream'', file_name = None\<rparr>
   \<and> normalize_type (blob_type comma_blob) = blob_type comma_blob
   \<and> dataUrlToBlob (readAsDataURL comma_blob) = Inl (DOMException ''InvalidCharacterError'')"
  by code_simp

end
